theory Spec2Isabelle
  imports Main
begin

section \<open>Library functions the program calls\<close>

text \<open>
  Go strings are byte sequences; \<open>string\<close> (a list of 8-bit characters) models them
  byte for byte.  The functions of this section belong to the Go standard library and to
  \<open>github.com/pkg/errors\<close>; they are modelled after their documented behaviour.
\<close>

subsection \<open>os.LookupEnv and getEnv\<close>

text \<open>The process environment: a variable is absent, or present with a (possibly empty) value.\<close>

type_synonym environ = "string \<rightharpoonup> string"

text \<open>
  \<^verbatim>\<open>
  func getEnv(name, fallback string) string {
      value, exists := os.LookupEnv(name)
      if !exists { value = fallback }
      return value
  }
  \<close>
\<close>

definition getEnv :: "environ \<Rightarrow> string \<Rightarrow> string \<Rightarrow> string" where
  "getEnv env name fallback = (case env name of None \<Rightarrow> fallback | Some v \<Rightarrow> v)"

subsection \<open>strconv.Atoi\<close>

datatype NumError = ErrSyntax | ErrRange

definition is_digit :: "char \<Rightarrow> bool" where
  "is_digit c = (48 \<le> (of_char c :: nat) \<and> (of_char c :: nat) \<le> 57)"

definition digit_val :: "char \<Rightarrow> nat" where
  "digit_val c = (of_char c :: nat) - 48"

text \<open>
  The digit loop of \<open>strconv.ParseUint\<close>, base 10, on an unsigned 64-bit accumulator: a
  character that is no digit is a syntax error; a digit that would take the accumulator
  beyond \<open>2^64 - 1\<close> ends the scan with a range error, whatever follows it.
  \<^verbatim>\<open>
  for _, c := range []byte(s) {
      // d = c - '0', or: return 0, syntaxError
      if n >= cutoff { return maxVal, rangeError }    // cutoff = maxUint64/10 + 1
      n *= 10
      n1 := n + uint64(d)
      if n1 < n || n1 > maxVal { return maxVal, rangeError }
      n = n1
  }
  \<close>
\<close>

datatype scan = BadDigit | Overflow | Digits nat

fun digits_value :: "string \<Rightarrow> nat \<Rightarrow> scan" where
  "digits_value [] n = Digits n"
| "digits_value (c # cs) n =
     (if \<not> is_digit c then BadDigit
      else if 1844674407370955162 \<le> n then Overflow
      else if 18446744073709551615 < n * 10 + digit_val c then Overflow
      else digits_value cs (n * 10 + digit_val c))"

text \<open>
  \<open>Atoi\<close> on a 64-bit platform: an optional sign, then one or more decimal digits.  On a
  syntax error the value is 0; a value outside the range of \<open>int\<close> is replaced by the
  nearest bound, with a range error.  (Texts of fewer than 19 bytes take a fast path in
  the library, with the same results.)
\<close>

definition Atoi :: "string \<Rightarrow> int \<times> NumError option" where
  "Atoi s =
     (let neg = (s \<noteq> [] \<and> hd s = CHR ''-'');
          body = (if s \<noteq> [] \<and> (hd s = CHR ''-'' \<or> hd s = CHR ''+'') then tl s else s)
      in if body = [] then (0, Some ErrSyntax)
         else (case digits_value body 0 of
                 BadDigit \<Rightarrow> (0, Some ErrSyntax)
               | Overflow \<Rightarrow>
                   (if neg then - 9223372036854775808 else 9223372036854775807, Some ErrRange)
               | Digits v \<Rightarrow>
                   if \<not> neg \<and> 9223372036854775808 \<le> v
                   then (9223372036854775807, Some ErrRange)
                   else if neg \<and> 9223372036854775808 < v
                   then (- 9223372036854775808, Some ErrRange)
                   else (if neg then - int v else int v, None)))"

subsection \<open>strings.TrimSpace\<close>

text \<open>
  The UTF-8 encodings of the code points Go's \<open>unicode.IsSpace\<close> accepts: U+0009 to
  U+000D, U+0020, U+0085, U+00A0, U+1680, U+2000 to U+200A, U+2028, U+2029, U+202F,
  U+205F and U+3000.
\<close>

definition space_runes :: "string list" where
  "space_runes =
     [[CHR 0x09], [CHR 0x0A], [CHR 0x0B], [CHR 0x0C], [CHR 0x0D], [CHR 0x20],
      [CHR 0xC2, CHR 0x85], [CHR 0xC2, CHR 0xA0], [CHR 0xE1, CHR 0x9A, CHR 0x80],
      [CHR 0xE2, CHR 0x80, CHR 0x80], [CHR 0xE2, CHR 0x80, CHR 0x81],
      [CHR 0xE2, CHR 0x80, CHR 0x82], [CHR 0xE2, CHR 0x80, CHR 0x83],
      [CHR 0xE2, CHR 0x80, CHR 0x84], [CHR 0xE2, CHR 0x80, CHR 0x85],
      [CHR 0xE2, CHR 0x80, CHR 0x86], [CHR 0xE2, CHR 0x80, CHR 0x87],
      [CHR 0xE2, CHR 0x80, CHR 0x88], [CHR 0xE2, CHR 0x80, CHR 0x89],
      [CHR 0xE2, CHR 0x80, CHR 0x8A], [CHR 0xE2, CHR 0x80, CHR 0xA8],
      [CHR 0xE2, CHR 0x80, CHR 0xA9], [CHR 0xE2, CHR 0x80, CHR 0xAF],
      [CHR 0xE2, CHR 0x81, CHR 0x9F], [CHR 0xE3, CHR 0x80, CHR 0x80]]"

text \<open>Removes one leading occurrence of a pattern, if there is one.\<close>

definition strip_one :: "string list \<Rightarrow> string \<Rightarrow> string option" where
  "strip_one ps s =
     (case filter (\<lambda>p. take (length p) s = p) ps of
        [] \<Rightarrow> None
      | p # _ \<Rightarrow> Some (drop (length p) s))"

text \<open>
  Removes leading patterns repeatedly.  Every pattern has at least one byte, so
  \<open>length s\<close> rounds suffice to reach the first byte that starts no pattern.
\<close>

primrec strip_many :: "nat \<Rightarrow> string list \<Rightarrow> string \<Rightarrow> string" where
  "strip_many 0 ps s = s"
| "strip_many (Suc n) ps s =
     (case strip_one ps s of None \<Rightarrow> s | Some r \<Rightarrow> strip_many n ps r)"

definition TrimSpace :: "string \<Rightarrow> string" where
  "TrimSpace s =
     (let l = strip_many (length s) space_runes s
      in rev (strip_many (length l) (map rev space_runes) (rev l)))"

subsection \<open>Errors (github.com/pkg/errors) and formatting\<close>

text \<open>
  An error is created by \<open>errors.Errorf\<close>, wraps another error with a message
  (\<open>errors.Wrap\<close>, \<open>errors.Wrapf\<close>), or comes from a library (\<open>Ext\<close>, with its message).
\<close>

datatype error = Errorf string | Wrap error string | Ext string

text \<open>The \<open>Error()\<close> method: a wrapping error prints its message, a colon and its cause.\<close>

fun Error :: "error \<Rightarrow> string" where
  "Error (Errorf m) = m"
| "Error (Ext m) = m"
| "Error (Wrap e m) = m @ '': '' @ Error e"

text \<open>The messages on the chain of an error, outermost first.\<close>

fun messages :: "error \<Rightarrow> string list" where
  "messages (Errorf m) = [m]"
| "messages (Ext m) = [m]"
| "messages (Wrap e m) = m # messages e"

text \<open>The verb \<open>%v\<close> on a slice of strings: the elements between brackets, separated by spaces.\<close>

fun join_sp :: "string list \<Rightarrow> string" where
  "join_sp [] = []"
| "join_sp [x] = x"
| "join_sp (x # y # ys) = x @ '' '' @ join_sp (y # ys)"

definition fmt_v :: "string list \<Rightarrow> string" where
  "fmt_v xs = ''['' @ join_sp xs @ '']''"

section \<open>Data model\<close>

text \<open>The constants of the program.\<close>

definition defaultTimeout :: string where
  "defaultTimeout = ''5''"

definition defaultMaxSessions :: string where
  "defaultMaxSessions = ''10''"

definition defaultUsers :: string where
  "defaultUsers = ''centos,ec2-user''"

definition defaultFacts :: string where
  "defaultFacts =
     ''{'' @ [CHR 0x22] @ ''kernel'' @ [CHR 0x22] @ '': '' @ [CHR 0x22] @ ''uname -rs'' @ [CHR 0x22]
      @ '','' @ [CHR 0x22] @ ''release'' @ [CHR 0x22] @ '': '' @ [CHR 0x22]
      @ ''cat /etc/redhat-release || cat /etc/*-release'' @ [CHR 0x22] @ ''}''"

text \<open>
  \<open>ssh.ClientConfig\<close>, as \<open>sshAuthSetup\<close> builds it: the login name and the dial
  timeout in seconds.  (The authentication method and the host key callback are the same
  for every configuration of a run.)
\<close>

record ClientConfig =
  User :: string
  Timeout :: int

text \<open>\<open>ec2.Tag\<close> and \<open>ec2.Instance\<close>: their fields are pointers, \<open>None\<close> is \<open>nil\<close>.\<close>

record Tag =
  Key :: "string option"
  Value :: "string option"

record Instance =
  InstanceIdPtr :: "string option"
  Tags :: "Tag list"

text \<open>
  \<^verbatim>\<open>
  type InstanceInfo struct {
      description *ec2.Instance
      addrs       []string
      facts       map[string]string
      err         error
  }
  \<close>
  A nil map and a nil error are \<open>None\<close>.  \<open>getInstances\<close> gives every
  \<open>InstanceInfo\<close> a description.
\<close>

record InstanceInfo =
  description :: Instance
  addrs :: "string list"
  facts :: "(string \<rightharpoonup> string) option"
  err :: "error option"

text \<open>
  \<^verbatim>\<open>
  type ResRow struct {
      InstanceId string
      Name       string
      IPs        []string
      Facts map[string]string
  }
  \<close>
\<close>

record ResRow =
  InstanceId :: string
  Name :: string
  IPs :: "string list"
  Facts :: "string \<rightharpoonup> string"

text \<open>Run-time panics of the Go runtime that the program can reach.\<close>

datatype panic = NilDereference | MakechanSizeOutOfRange

section \<open>The remote side\<close>

text \<open>
  A connection handle (\<open>*ssh.Client\<close>) is a number.  The remote side is deterministic:
  whether a dial succeeds depends on the address and the configuration; whether the
  server grants a session depends on the connection and on how many sessions were
  requested on it before; what a command does depends on the connection and on the
  command text.
\<close>

type_synonym client = nat

record backend =
  Dial :: "string \<Rightarrow> ClientConfig \<Rightarrow> error + client"
  NewSession :: "client \<Rightarrow> nat \<Rightarrow> error option"
  Start :: "client \<Rightarrow> string \<Rightarrow> error option"
  Wait :: "client \<Rightarrow> string \<Rightarrow> error option"
  Stdout :: "client \<Rightarrow> string \<Rightarrow> string"
  Stderr :: "client \<Rightarrow> string \<Rightarrow> string"

text \<open>
  The calls a run of \<open>GetFacts\<close> makes on the remote side, in order: \<open>ssh.Dial\<close> with
  the network address and the configuration, \<open>client.NewSession\<close>, \<open>session.Start\<close>,
  \<open>session.Wait\<close> and \<open>session.Close\<close> with the session's number on its connection, and
  \<open>client.Close\<close>.
\<close>

datatype call =
    CDial string ClientConfig
  | CNewSession client
  | CStart client nat string
  | CWait client nat
  | CSessionClose client nat
  | CClose client

text \<open>
  Go visits the keys of a map in an unspecified order, each key once.  Every \<open>range\<close>
  over a map whose order can matter takes the order as a parameter.
\<close>

definition range_order :: "(string \<rightharpoonup> 'a) \<Rightarrow> string list \<Rightarrow> bool" where
  "range_order m ks = (distinct ks \<and> set ks = dom m)"

section \<open>GetFacts\<close>

subsection \<open>Finding a connection\<close>

text \<open>
  \<^verbatim>\<open>
  conStr := ""
  var client *ssh.Client
  for i := 0; i < len(auths) && conStr == ""; i++ {
      auth := auths[i]
      for _, host := range hostAddrs {
          var err error
          if client, err = ssh.Dial("tcp", host+":22", auth); err == nil {
              conStr = auth.User + "@" + host
              break
          }
      }
  }
  \<close>
  The state of the loops is \<open>conStr\<close>, \<open>client\<close> and the calls made so far.  A dial that
  fails assigns \<open>nil\<close> to \<open>client\<close>.
\<close>

type_synonym nstate = "string \<times> client option \<times> call list"

fun dial_hosts :: "backend \<Rightarrow> ClientConfig \<Rightarrow> string list \<Rightarrow> nstate \<Rightarrow> nstate" where
  "dial_hosts b auth [] st = st"
| "dial_hosts b auth (host # hosts) (conStr, cl, tr) =
     (case Dial b (host @ '':22'') auth of
        Inr c \<Rightarrow> (User auth @ ''@'' @ host, Some c, tr @ [CDial (host @ '':22'') auth])
      | Inl e \<Rightarrow> dial_hosts b auth hosts (conStr, None, tr @ [CDial (host @ '':22'') auth]))"

fun dial_auths :: "backend \<Rightarrow> string list \<Rightarrow> ClientConfig list \<Rightarrow> nstate \<Rightarrow> nstate" where
  "dial_auths b hostAddrs [] st = st"
| "dial_auths b hostAddrs (auth # auths) (conStr, cl, tr) =
     (if conStr = [] then dial_auths b hostAddrs auths (dial_hosts b auth hostAddrs (conStr, cl, tr))
      else (conStr, cl, tr))"

subsection \<open>Starting the commands\<close>

text \<open>
  \<^verbatim>\<open>
  commands := map[string]remoteCmd{}
  for name, cmd := range factsToCollect {
      session, err := client.NewSession()
      if err != nil {
          return nil, errors.Wrap(err, "Can't allocate session for "+conStr)
      }
      commands[name] = remoteCmd{cmd: cmd, session: session, ...}
      if err := session.Start(cmd); err != nil {
          return nil, errors.Wrap(err, "Can't start command: '"+cmd+"' at "+conStr)
      }
  }
  \<close>
  A \<open>remoteCmd\<close> holds its session (its number on the connection) and its command; the
  output buffers belong to the session and are read from the remote side.  The state of
  the loop is \<open>commands\<close>, the number of sessions granted so far and the calls made so far;
  the error is the one the loop returns with, if it does.
\<close>

record remoteCmd =
  session :: nat
  cmd :: string

type_synonym cstate = "(string \<rightharpoonup> remoteCmd) \<times> nat \<times> call list"

fun create_sessions ::
  "backend \<Rightarrow> client \<Rightarrow> string \<Rightarrow> (string \<rightharpoonup> string) \<Rightarrow> string list \<Rightarrow> cstate
     \<Rightarrow> error option \<times> cstate" where
  "create_sessions b c conStr factsToCollect [] st = (None, st)"
| "create_sessions b c conStr factsToCollect (name # names) (commands, n, tr) =
     (case factsToCollect name of
        None \<Rightarrow> create_sessions b c conStr factsToCollect names (commands, n, tr)
      | Some cm \<Rightarrow>
          (case NewSession b c n of
             Some e \<Rightarrow>
               (Some (Wrap e (''Can'' @ [CHR 0x27] @ ''t allocate session for '' @ conStr)),
                (commands, n, tr @ [CNewSession c]))
           | None \<Rightarrow>
               (case Start b c cm of
                  Some e \<Rightarrow>
                    (Some (Wrap e (''Can'' @ [CHR 0x27] @ ''t start command: '' @ [CHR 0x27] @ cm
                                    @ [CHR 0x27] @ '' at '' @ conStr)),
                     (commands(name \<mapsto> \<lparr>session = n, cmd = cm\<rparr>), Suc n,
                      tr @ [CNewSession c, CStart c n cm]))
                | None \<Rightarrow>
                    create_sessions b c conStr factsToCollect names
                      (commands(name \<mapsto> \<lparr>session = n, cmd = cm\<rparr>), Suc n,
                       tr @ [CNewSession c, CStart c n cm]))))"

subsection \<open>Collecting the outputs\<close>

text \<open>
  \<^verbatim>\<open>
  facts := map[string]string{}
  combErr := errors.Errorf("can't collect all facts for %s", conStr)
  hasErrors := false
  for name, c := range commands {
      if err := c.session.Wait(); err != nil {
          combErr = errors.Wrapf(combErr, "Failed to collect '%s' fact: %s (@err %s)",
                                 name, err.Error(), c.stderr)
          hasErrors = true
      } else {
          facts[name] = strings.TrimSpace(c.stdout.String())
      }
      c.session.Close()
  }
  \<close>
\<close>

definition fail_msg :: "string \<Rightarrow> string \<Rightarrow> string \<Rightarrow> string" where
  "fail_msg name e stderr =
     ''Failed to collect '' @ [CHR 0x27] @ name @ [CHR 0x27] @ '' fact: '' @ e
       @ '' (@err '' @ stderr @ '')''"

type_synonym wstate = "(string \<rightharpoonup> string) \<times> error \<times> bool \<times> call list"

fun wait_sessions ::
  "backend \<Rightarrow> client \<Rightarrow> (string \<rightharpoonup> remoteCmd) \<Rightarrow> string list \<Rightarrow> wstate \<Rightarrow> wstate" where
  "wait_sessions b c commands [] st = st"
| "wait_sessions b c commands (name # names) (fs, combErr, hasErrors, tr) =
     (case commands name of
        None \<Rightarrow> wait_sessions b c commands names (fs, combErr, hasErrors, tr)
      | Some rc \<Rightarrow>
          (case Wait b c (cmd rc) of
             Some e \<Rightarrow>
               wait_sessions b c commands names
                 (fs, Wrap combErr (fail_msg name (Error e) (Stderr b c (cmd rc))), True,
                  tr @ [CWait c (session rc), CSessionClose c (session rc)])
           | None \<Rightarrow>
               wait_sessions b c commands names
                 (fs(name \<mapsto> TrimSpace (Stdout b c (cmd rc))), combErr, hasErrors,
                  tr @ [CWait c (session rc), CSessionClose c (session rc)])))"

subsection \<open>The function\<close>

text \<open>
  \<open>GetFacts\<close> returns its pair of results, or panics; the calls it made come with either.
  \<open>ks1\<close> and \<open>ks2\<close> are the orders in which the two \<open>range\<close> loops visit their maps.
  The deferred \<open>client.Close()\<close> runs at every return after the connection was found.  A
  nil \<open>client\<close> after the dial loops would be dereferenced (by \<open>NewSession\<close>, or by the
  deferred \<open>Close\<close>).
\<close>

definition GetFacts ::
  "backend \<Rightarrow> string list \<Rightarrow> (string \<rightharpoonup> string) \<Rightarrow> ClientConfig list \<Rightarrow> string list
     \<Rightarrow> string list \<Rightarrow> (panic + ((string \<rightharpoonup> string) option \<times> error option)) \<times> call list" where
  "GetFacts b hostAddrs factsToCollect auths ks1 ks2 =
     (if length hostAddrs = 0 then (Inr (None, Some (Errorf ''No hosts to get facts'')), [])
      else
        (case dial_auths b hostAddrs auths ([], None, []) of
           (conStr, cl, tr) \<Rightarrow>
             if conStr = []
             then (Inr (None, Some (Errorf (''Can'' @ [CHR 0x27]
                          @ ''t connect to host with addresses: '' @ fmt_v hostAddrs))), tr)
             else
               (case cl of
                  None \<Rightarrow> (Inl NilDereference, tr)
                | Some c \<Rightarrow>
                    (case create_sessions b c conStr factsToCollect ks1 (Map.empty, 0, tr) of
                       (Some e, (commands, n, tr1)) \<Rightarrow> (Inr (None, Some e), tr1 @ [CClose c])
                     | (None, (commands, n, tr1)) \<Rightarrow>
                         (case wait_sessions b c commands ks2
                                 (Map.empty,
                                  Errorf (''can'' @ [CHR 0x27] @ ''t collect all facts for '' @ conStr),
                                  False, tr1) of
                            (fs, combErr, hasErrors, tr2) \<Rightarrow>
                              (Inr (Some fs, if \<not> hasErrors then None else Some combErr),
                               tr2 @ [CClose c]))))))"

section \<open>processFact and the admission gate\<close>

text \<open>
  \<^verbatim>\<open>
  func processFact(jobID int, limiter chan int, factsToCollect map[string]string,
                   wg *sync.WaitGroup, auths []*ssh.ClientConfig, instance *InstanceInfo) {
      defer wg.Done()
      limiter <- jobID
      instance.facts, instance.err = GetFacts(instance.addrs, factsToCollect, auths)
      if instance.err != nil { log.Println(instance.err) }
      <-limiter
  }
  \<close>
  \<open>Worker\<close> starts one goroutine per instance, all running \<open>processFact\<close> on the same
  channel.  A goroutine is at one of four points: before its send, inside \<open>GetFacts\<close>
  (its send done), before its receive (\<open>GetFacts\<close> returned, with or without an error),
  or finished.
\<close>

datatype pc = AtSend | InGetFacts | AtRecv | Finished

text \<open>
  The state of the job: the buffer of the channel \<open>limiter\<close>, the point each goroutine is
  at, the instances (goroutine \<open>i\<close> writes to instance \<open>i\<close> only), and the panic that
  ended the program, if one did.
\<close>

record jobstate =
  limiter :: "nat list"
  pcs :: "pc list"
  instances :: "InstanceInfo list"
  crashed :: "panic option"

text \<open>
  The atomic steps of the goroutines.  \<open>Send i\<close>: goroutine \<open>i\<close> completes
  \<open>limiter <- jobID\<close>, which a channel allows while its buffer holds fewer values than
  its capacity.  \<open>Handoff i j\<close>: the send of \<open>i\<close> meets the receive of \<open>j\<close> directly, which
  a channel allows when its buffer is empty (the only way through a channel of capacity
  0).  \<open>Collect i ks1 ks2\<close>: the call of \<open>GetFacts\<close> in goroutine \<open>i\<close> returns, having
  visited its maps in the orders \<open>ks1\<close> and \<open>ks2\<close>.  \<open>Recv i\<close>: goroutine \<open>i\<close> completes
  \<open><-limiter\<close>, taking the oldest value of the buffer.
\<close>

datatype step = Send nat | Handoff nat nat | Collect nat "string list" "string list" | Recv nat

fun processFact_step ::
  "backend \<Rightarrow> (string \<rightharpoonup> string) \<Rightarrow> ClientConfig list \<Rightarrow> nat \<Rightarrow> jobstate \<Rightarrow> step
     \<Rightarrow> jobstate option" where
  "processFact_step b factsToCollect auths cap s (Send i) =
     (if crashed s = None \<and> i < length (pcs s) \<and> pcs s ! i = AtSend \<and> length (limiter s) < cap
      then Some (s\<lparr>limiter := limiter s @ [i], pcs := (pcs s)[i := InGetFacts]\<rparr>)
      else None)"
| "processFact_step b factsToCollect auths cap s (Handoff i j) =
     (if crashed s = None \<and> i < length (pcs s) \<and> j < length (pcs s) \<and> pcs s ! i = AtSend
         \<and> pcs s ! j = AtRecv \<and> limiter s = []
      then Some (s\<lparr>pcs := (pcs s)[i := InGetFacts, j := Finished]\<rparr>)
      else None)"
| "processFact_step b factsToCollect auths cap s (Collect i ks1 ks2) =
     (if crashed s = None \<and> i < length (pcs s) \<and> i < length (instances s)
         \<and> pcs s ! i = InGetFacts
      then (case fst (GetFacts b (addrs (instances s ! i)) factsToCollect auths ks1 ks2) of
              Inl p \<Rightarrow> Some (s\<lparr>crashed := Some p\<rparr>)
            | Inr (f, e) \<Rightarrow>
                Some (s\<lparr>pcs := (pcs s)[i := AtRecv],
                        instances := (instances s)[i := (instances s ! i)\<lparr>facts := f, err := e\<rparr>]\<rparr>))
      else None)"
| "processFact_step b factsToCollect auths cap s (Recv i) =
     (if crashed s = None \<and> i < length (pcs s) \<and> pcs s ! i = AtRecv \<and> limiter s \<noteq> []
      then Some (s\<lparr>limiter := tl (limiter s), pcs := (pcs s)[i := Finished]\<rparr>)
      else None)"

text \<open>
  An interleaving is a list of steps; it is an execution when every step is possible where
  it stands (\<open>None\<close> otherwise).
\<close>

fun run_steps ::
  "backend \<Rightarrow> (string \<rightharpoonup> string) \<Rightarrow> ClientConfig list \<Rightarrow> nat \<Rightarrow> step list \<Rightarrow> jobstate
     \<Rightarrow> jobstate option" where
  "run_steps b factsToCollect auths cap [] s = Some s"
| "run_steps b factsToCollect auths cap (st # sts) s =
     (case processFact_step b factsToCollect auths cap s st of
        None \<Rightarrow> None
      | Some s' \<Rightarrow> run_steps b factsToCollect auths cap sts s')"

text \<open>
  \<^verbatim>\<open>
  for i := range instances {
      wg.Add(1)
      go processFact(i, limiter, factsToCollect, &wg, sshAuths, instances[i])
  }
  \<close>
\<close>

definition dispatch :: "InstanceInfo list \<Rightarrow> jobstate" where
  "dispatch insts =
     \<lparr>limiter = [], pcs = replicate (length insts) AtSend, instances = insts, crashed = None\<rparr>"

section \<open>formatResult\<close>

text \<open>
  \<^verbatim>\<open>
  for _, tag := range inst.description.Tags {
      if *tag.Key == "Name" {
          row.Name = *tag.Value
          break
      }
  }
  \<close>
  The second argument is \<open>row.Name\<close> before the loop.
\<close>

fun find_Name :: "Tag list \<Rightarrow> string \<Rightarrow> panic + string" where
  "find_Name [] nm = Inr nm"
| "find_Name (tag # tags) nm =
     (case Key tag of
        None \<Rightarrow> Inl NilDereference
      | Some k \<Rightarrow>
          if k = ''Name''
          then (case Value tag of None \<Rightarrow> Inl NilDereference | Some v \<Rightarrow> Inr v)
          else find_Name tags nm)"

text \<open>
  \<^verbatim>\<open>
  unkRes := ""
  if inst.facts != nil {
      for k := range factsToCollect {
          res := unkRes
          if fact, ok := inst.facts[k]; ok {
              res = fact
          }
          row.Facts[k] = res
      }
  }
  \<close>
  \<open>row.Facts\<close> starts empty.  The loop assigns to every key of \<open>factsToCollect\<close> a value
  that depends on the key alone, so the map it leaves does not depend on the order of the
  visit.
\<close>

definition unkRes :: string where
  "unkRes = []"

definition row_Facts ::
  "(string \<rightharpoonup> string) option \<Rightarrow> (string \<rightharpoonup> string) \<Rightarrow> (string \<rightharpoonup> string)" where
  "row_Facts fs factsToCollect =
     (case fs of
        None \<Rightarrow> Map.empty
      | Some m \<Rightarrow>
          (\<lambda>k. case factsToCollect k of
                 None \<Rightarrow> None
               | Some _ \<Rightarrow> Some (case m k of Some v \<Rightarrow> v | None \<Rightarrow> unkRes)))"

text \<open>The body of the loop over the instances: the row of one instance.\<close>

definition format_row :: "InstanceInfo \<Rightarrow> (string \<rightharpoonup> string) \<Rightarrow> panic + ResRow" where
  "format_row inst factsToCollect =
     (case find_Name (Tags (description inst)) [] of
        Inl p \<Rightarrow> Inl p
      | Inr nm \<Rightarrow>
          Inr \<lparr>InstanceId = (case InstanceIdPtr (description inst) of None \<Rightarrow> [] | Some i \<Rightarrow> i),
               Name = nm,
               IPs = addrs inst,
               Facts = row_Facts (facts inst) factsToCollect\<rparr>)"

text \<open>
  \<^verbatim>\<open>
  func formatResult(instances []*InstanceInfo, factsToCollect map[string]string) (resTable []ResRow) {
      for _, inst := range instances {
          row := ...
          resTable = append(resTable, row)
      }
      return
  }
  \<close>
\<close>

fun formatResult :: "InstanceInfo list \<Rightarrow> (string \<rightharpoonup> string) \<Rightarrow> panic + ResRow list" where
  "formatResult [] factsToCollect = Inr []"
| "formatResult (inst # insts) factsToCollect =
     (case format_row inst factsToCollect of
        Inl p \<Rightarrow> Inl p
      | Inr row \<Rightarrow>
          (case formatResult insts factsToCollect of
             Inl p \<Rightarrow> Inl p
           | Inr rows \<Rightarrow> Inr (row # rows)))"

section \<open>Worker\<close>

text \<open>
  What \<open>Worker\<close> takes from outside the program: the result of \<open>sshAuthSetup()\<close> (keys
  and the agent), \<open>json.Unmarshal\<close> on the text of \<open>FACTS\<close>, the result of
  \<open>getInstances()\<close> (the EC2 API), and the remote side.
\<close>

record runtime =
  authSetup :: "error + ClientConfig list"
  Unmarshal :: "string \<Rightarrow> error + (string \<rightharpoonup> string)"
  found :: "error + InstanceInfo list"
  remote :: backend

text \<open>
  \<^verbatim>\<open>
  maxSessions, _ := strconv.Atoi(getEnv("MAX_SESSIONS", defaultMaxSessions))
  \<close>
\<close>

definition maxSessions :: "environ \<Rightarrow> int" where
  "maxSessions env = fst (Atoi (getEnv env ''MAX_SESSIONS'' defaultMaxSessions))"

text \<open>
  \<open>make(chan int, n)\<close> panics when the size \<open>n\<close> is negative, or when the buffer (8 bytes
  per element) does not fit under the allocation limit of the runtime:
  \<^verbatim>\<open>
  mem, overflow := math.MulUintptr(elem.size, uintptr(size))
  if overflow || mem > maxAlloc-hchanSize || size < 0 {
      panic(plainError("makechan: size out of range"))
  }
  \<close>
  with \<open>maxAlloc = 2^48\<close> and \<open>hchanSize = 96\<close> on linux/amd64.  (A size in
  \<open>int\<close> cannot overflow the product otherwise than by exceeding that limit.)
\<close>

definition makechan_panics :: "int \<Rightarrow> bool" where
  "makechan_panics n = (n < 0 \<or> 281474976710656 - 96 < 8 * n)"

text \<open>
  \<open>Worker\<close> returns its two named results, or the program panics.  With an error,
  \<open>resTable\<close> is still nil (the empty list).
\<close>

datatype outcome = Returned "ResRow list" "error option" | Panicked panic

text \<open>
  \<^verbatim>\<open>
  sshAuths, err := sshAuthSetup()
  if err != nil { return }
  facts := getEnv("FACTS", defaultFacts)
  factsToCollect := map[string]string{}
  if err = json.Unmarshal([]byte(facts), &factsToCollect); err != nil { return }
  instances, err := getInstances()
  if err != nil { return }
  maxSessions, _ := strconv.Atoi(getEnv("MAX_SESSIONS", defaultMaxSessions))
  limiter := make(chan int, maxSessions)
  var wg sync.WaitGroup
  for i := range instances { wg.Add(1); go processFact(...) }
  wg.Wait()
  resTable = formatResult(instances, factsToCollect)
  return
  \<close>
  Below the limit of \<open>make\<close> memory is taken to suffice.  \<open>wg.Wait()\<close> returns
  when every goroutine has finished: along the interleaving \<open>sched\<close>, \<open>Worker\<close> returns
  (or the program panics) when \<open>sched\<close> is an execution that ends with a panic or with
  every goroutine finished, and gives \<open>None\<close> otherwise.
\<close>

definition Worker :: "runtime \<Rightarrow> environ \<Rightarrow> step list \<Rightarrow> outcome option" where
  "Worker rt env sched =
     (case authSetup rt of
        Inl e \<Rightarrow> Some (Returned [] (Some e))
      | Inr sshAuths \<Rightarrow>
          (case Unmarshal rt (getEnv env ''FACTS'' defaultFacts) of
             Inl e \<Rightarrow> Some (Returned [] (Some e))
           | Inr factsToCollect \<Rightarrow>
               (case found rt of
                  Inl e \<Rightarrow> Some (Returned [] (Some e))
                | Inr insts \<Rightarrow>
                    if makechan_panics (maxSessions env)
                    then Some (Panicked MakechanSizeOutOfRange)
                    else
                      (case run_steps (remote rt) factsToCollect sshAuths (nat (maxSessions env))
                              sched (dispatch insts) of
                         None \<Rightarrow> None
                       | Some s \<Rightarrow>
                           (case crashed s of
                              Some p \<Rightarrow> Some (Panicked p)
                            | None \<Rightarrow>
                                if list_all (\<lambda>p. p = Finished) (pcs s)
                                then (case formatResult (instances s) factsToCollect of
                                        Inl p \<Rightarrow> Some (Panicked p)
                                      | Inr resTable \<Rightarrow> Some (Returned resTable None))
                                else None)))))"

section \<open>Notions the properties are stated with\<close>

text \<open>
  The credential-major order of the (credential, address) pairs: the credentials in
  their order, and under each credential the addresses in their order.
\<close>

definition attempt_order :: "ClientConfig list \<Rightarrow> string list \<Rightarrow> (ClientConfig \<times> string) list" where
  "attempt_order auths hostAddrs = concat (map (\<lambda>auth. map (Pair auth) hostAddrs) auths)"

text \<open>The connection attempt for a pair, and whether the attempt fails.\<close>

definition dial_of :: "ClientConfig \<times> string \<Rightarrow> call" where
  "dial_of p = CDial (snd p @ '':22'') (fst p)"

definition unreachable :: "backend \<Rightarrow> ClientConfig \<times> string \<Rightarrow> bool" where
  "unreachable b p = (case Dial b (snd p @ '':22'') (fst p) of Inl e \<Rightarrow> True | Inr c \<Rightarrow> False)"

fun is_dial :: "call \<Rightarrow> bool" where
  "is_dial (CDial a auth) = True"
| "is_dial _ = False"

text \<open>
  Negotiation as the specification words it: go through a list of pairs, stop at the first
  pair that connects.  The dial loops of \<open>GetFacts\<close> are compared with it on the pairs in
  credential-major order.
\<close>

fun try_pairs :: "backend \<Rightarrow> (ClientConfig \<times> string) list \<Rightarrow> nstate \<Rightarrow> nstate" where
  "try_pairs b [] st = st"
| "try_pairs b ((auth, host) # ps) (conStr, cl, tr) =
     (case Dial b (host @ '':22'') auth of
        Inr c \<Rightarrow> (User auth @ ''@'' @ host, Some c, tr @ [CDial (host @ '':22'') auth])
      | Inl e \<Rightarrow> try_pairs b ps (conStr, None, tr @ [CDial (host @ '':22'') auth]))"

text \<open>A text of decimal digits, and the number it denotes.\<close>

definition numeral_text :: "string \<Rightarrow> bool" where
  "numeral_text s = (s \<noteq> [] \<and> list_all is_digit s)"

definition dec_value :: "string \<Rightarrow> nat" where
  "dec_value s = foldl (\<lambda>n c. n * 10 + digit_val c) 0 s"

text \<open>
  The calls that open and start one session per label, the sessions numbered from \<open>n\<close>.
\<close>

fun started :: "client \<Rightarrow> (string \<rightharpoonup> string) \<Rightarrow> nat \<Rightarrow> string list \<Rightarrow> call list" where
  "started c f n [] = []"
| "started c f n (name # names) =
     [CNewSession c, CStart c n (the (f name))] @ started c f (Suc n) names"

text \<open>
  What a batch should yield on connection \<open>c\<close>: the trimmed output of every label whose
  command succeeds, and for the labels whose command fails, in the order \<open>ks\<close>, the
  message that records the label, the failure and the captured standard error.
\<close>

definition collected :: "backend \<Rightarrow> client \<Rightarrow> (string \<rightharpoonup> string) \<Rightarrow> (string \<rightharpoonup> string)" where
  "collected b c f =
     (\<lambda>name. case f name of
               None \<Rightarrow> None
             | Some cm \<Rightarrow>
                 (case Wait b c cm of
                    None \<Rightarrow> Some (TrimSpace (Stdout b c cm))
                  | Some e \<Rightarrow> None))"

fun failures :: "backend \<Rightarrow> client \<Rightarrow> (string \<rightharpoonup> string) \<Rightarrow> string list \<Rightarrow> string list" where
  "failures b c f [] = []"
| "failures b c f (name # names) =
     (case f name of
        None \<Rightarrow> failures b c f names
      | Some cm \<Rightarrow>
          (case Wait b c cm of
             None \<Rightarrow> failures b c f names
           | Some e \<Rightarrow> fail_msg name (Error e) (Stderr b c cm) # failures b c f names))"

text \<open>The aggregate error: nil without failures, else the base error wrapped once per failure.\<close>

definition aggregate :: "string \<Rightarrow> string list \<Rightarrow> error option" where
  "aggregate conStr msgs =
     (if msgs = [] then None
      else Some (foldl Wrap (Errorf (''can'' @ [CHR 0x27] @ ''t collect all facts for '' @ conStr)) msgs))"

text \<open>
  The goroutines in the negotiating/executing phase (inside \<open>GetFacts\<close>), and the
  goroutines that hold a slot of the gate (their send done, their receive not yet).
\<close>

definition running :: "pc list \<Rightarrow> nat" where
  "running ps = length (filter (\<lambda>p. p = InGetFacts) ps)"

definition holding :: "pc list \<Rightarrow> nat" where
  "holding ps = length (filter (\<lambda>p. p = InGetFacts \<or> p = AtRecv) ps)"

text \<open>An instance keeps its identity and its addresses through the job.\<close>

definition same_target :: "InstanceInfo \<Rightarrow> InstanceInfo \<Rightarrow> bool" where
  "same_target x y = (description x = description y \<and> addrs x = addrs y)"

text \<open>The orders of a schedule are orders in which Go may visit the map \<open>f\<close>.\<close>

fun step_orders_ok :: "(string \<rightharpoonup> string) \<Rightarrow> step \<Rightarrow> bool" where
  "step_orders_ok f (Collect i ks1 ks2) = (range_order f ks1 \<and> range_order f ks2)"
| "step_orders_ok f _ = True"

definition orders_ok :: "(string \<rightharpoonup> string) \<Rightarrow> step list \<Rightarrow> bool" where
  "orders_ok f sched = list_all (step_orders_ok f) sched"

text \<open>The facts map among the results of \<open>GetFacts\<close>.\<close>

definition facts_part ::
  "panic + ((string \<rightharpoonup> string) option \<times> error option) \<Rightarrow> (string \<rightharpoonup> string) option" where
  "facts_part r = (case r of Inl p \<Rightarrow> None | Inr (fs, e) \<Rightarrow> fs)"

text \<open>The interleaving in which the goroutines run one after the other.\<close>

definition serve :: "string list \<Rightarrow> nat \<Rightarrow> step list" where
  "serve ks i = [Send i, Collect i ks ks, Recv i]"

definition one_by_one :: "string list \<Rightarrow> nat \<Rightarrow> step list" where
  "one_by_one ks n = concat (map (serve ks) [0..<n])"

section \<open>Example inputs\<close>

definition centos :: ClientConfig where
  "centos = \<lparr>User = ''centos'', Timeout = 5\<rparr>"

definition ec2_user :: ClientConfig where
  "ec2_user = \<lparr>User = ''ec2-user'', Timeout = 5\<rparr>"

text \<open>
  A remote side where only \<open>ec2-user\<close> at 10.0.0.2 connects, every session is granted and
  started, the command \<open>false\<close> fails, and every other command prints its own text
  between blanks.
\<close>

definition stub :: backend where
  "stub =
     \<lparr>Dial = (\<lambda>a auth. if User auth = ''ec2-user'' \<and> a = ''10.0.0.2:22'' then Inr 7
                       else Inl (Ext ''i/o timeout'')),
      NewSession = (\<lambda>c n. None),
      Start = (\<lambda>c cm. None),
      Wait = (\<lambda>c cm. if cm = ''false'' then Some (Ext ''Process exited with status 1'') else None),
      Stdout = (\<lambda>c cm. if cm = ''false'' then [] else '' '' @ cm @ [CHR 0x0A]),
      Stderr = (\<lambda>c cm. if cm = ''false'' then ''boom'' else [])\<rparr>"

text \<open>The same remote side with a server that grants one session per connection.\<close>

definition stub_one_session :: backend where
  "stub_one_session = stub\<lparr>NewSession := (\<lambda>c n. if n < 1 then None else Some (Ext ''open failed''))\<rparr>"

definition three_facts :: "string \<rightharpoonup> string" where
  "three_facts = [''kernel'' \<mapsto> ''uname -rs'', ''broken'' \<mapsto> ''false'', ''host'' \<mapsto> ''hostname'']"

definition web1 :: InstanceInfo where
  "web1 =
     \<lparr>description = \<lparr>InstanceIdPtr = Some ''i-01'',
                     Tags = [\<lparr>Key = Some ''env'', Value = Some ''prod''\<rparr>,
                             \<lparr>Key = Some ''Name'', Value = Some ''web1''\<rparr>]\<rparr>,
      addrs = [''10.0.0.2''], facts = None, err = None\<rparr>"

definition db1 :: InstanceInfo where
  "db1 =
     \<lparr>description = \<lparr>InstanceIdPtr = Some ''i-02'', Tags = []\<rparr>,
      addrs = [''10.0.0.9''], facts = None, err = None\<rparr>"

text \<open>A job of two instances and capacity 2 in which the first goroutine is inside \<open>GetFacts\<close>.\<close>

definition one_running :: jobstate where
  "one_running =
     \<lparr>limiter = [0], pcs = [InGetFacts, AtSend], instances = [web1, db1], crashed = None\<rparr>"

text \<open>Instances may carry tags with a nil key or value; these do not.\<close>

definition well_tagged :: "InstanceInfo \<Rightarrow> bool" where
  "well_tagged inst = list_all (\<lambda>t. Key t \<noteq> None \<and> Value t \<noteq> None) (Tags (description inst))"

text \<open>
  Two complete interleavings of a job of two instances: in the first the second goroutine
  completes before the first one; in the second they run one after the other.
\<close>

definition second_first :: "step list" where
  "second_first =
     [Send 1, Send 0, Collect 1 [''kernel''] [''kernel''], Recv 1,
      Collect 0 [''kernel''] [''kernel''], Recv 0]"

definition first_first :: "step list" where
  "first_first =
     [Send 0, Collect 0 [''kernel''] [''kernel''], Recv 0,
      Send 1, Collect 1 [''kernel''] [''kernel''], Recv 1]"

text \<open>An outside that yields one credential, one label and two instances.\<close>

definition demo_runtime :: runtime where
  "demo_runtime =
     \<lparr>authSetup = Inr [ec2_user],
      Unmarshal = (\<lambda>text. Inr [''kernel'' \<mapsto> ''uname -rs'']),
      found = Inr [web1, db1],
      remote = stub\<rparr>"

section \<open>The capacity of the admission gate\<close>

lemma foldl_digits_ge: "n \<le> foldl (\<lambda>n c. n * 10 + digit_val c) n s"
proof (induction s arbitrary: n)
  case Nil
  then show ?case by simp
next
  case (Cons c cs)
  have "n \<le> n * 10 + digit_val c" by simp
  also have "\<dots> \<le> foldl (\<lambda>n c. n * 10 + digit_val c) (n * 10 + digit_val c) cs"
    by (rule Cons.IH)
  finally show ?case by simp
qed

lemma digits_value_foldl:
  "list_all is_digit s \<Longrightarrow> foldl (\<lambda>n c. n * 10 + digit_val c) n s \<le> 18446744073709551615 \<Longrightarrow>
   digits_value s n = Digits (foldl (\<lambda>n c. n * 10 + digit_val c) n s)"
proof (induction s arbitrary: n)
  case Nil
  then show ?case by simp
next
  case (Cons c cs)
  let ?m = "n * 10 + digit_val c"
  have "?m \<le> foldl (\<lambda>n c. n * 10 + digit_val c) ?m cs"
    by (rule foldl_digits_ge)
  then have m: "?m \<le> 18446744073709551615"
    using Cons.prems(2) by simp
  then have n: "\<not> 1844674407370955162 \<le> n" by linarith
  have "digits_value cs ?m = Digits (foldl (\<lambda>n c. n * 10 + digit_val c) ?m cs)"
    using Cons.IH [of ?m] Cons.prems by simp
  then show ?case using Cons.prems(1) m n by simp
qed

lemma digit_not_sign: "is_digit c \<Longrightarrow> c \<noteq> CHR ''-'' \<and> c \<noteq> CHR ''+''"
  by (auto simp: is_digit_def)

lemma Atoi_numeral_text:
  assumes "numeral_text s" and "dec_value s < 9223372036854775808"
  shows "Atoi s = (int (dec_value s), None)"
proof -
  obtain c cs where s: "s = c # cs" and c: "is_digit c" and cs: "list_all is_digit cs"
    using assms(1) by (cases s) (auto simp: numeral_text_def)
  have sign: "c \<noteq> CHR ''-''" "c \<noteq> CHR ''+''"
    using digit_not_sign [OF c] by simp_all
  have "digits_value s 0 = Digits (dec_value s)"
    using digits_value_foldl [of s 0] assms by (simp add: numeral_text_def dec_value_def)
  then show ?thesis
    using s sign assms(2) by (simp add: Atoi_def)
qed

text \<open>
  C9, as the code has it.  The capacity \<open>Worker\<close> gives the channel is the default 10
  when \<open>MAX_SESSIONS\<close> is not set, and the configured number when it is set to a text of
  decimal digits that denotes a positive number within the range of \<open>int\<close>; in both cases
  it is positive.  (Any other setting is taken as \<open>strconv.Atoi\<close> returns it, the error
  dropped.)
\<close>

theorem maxSessions_effective:
  "(env ''MAX_SESSIONS'' = None \<longrightarrow> maxSessions env = 10 \<and> 0 < maxSessions env) \<and>
   (env ''MAX_SESSIONS'' = Some s \<and> numeral_text s \<and> 0 < dec_value s
      \<and> dec_value s < 9223372036854775808
    \<longrightarrow> maxSessions env = int (dec_value s) \<and> 0 < maxSessions env)"
proof (intro conjI impI)
  assume unset: "env ''MAX_SESSIONS'' = None"
  have "Atoi ''10'' = (10, None)"
    by (simp add: Atoi_def is_digit_def digit_val_def)
  then show "maxSessions env = 10"
    using unset by (simp add: maxSessions_def getEnv_def defaultMaxSessions_def)
  then show "0 < maxSessions env" by simp
next
  assume set: "env ''MAX_SESSIONS'' = Some s \<and> numeral_text s \<and> 0 < dec_value s
      \<and> dec_value s < 9223372036854775808"
  then have "Atoi s = (int (dec_value s), None)"
    using Atoi_numeral_text by blast
  then show eq: "maxSessions env = int (dec_value s)"
    using set by (simp add: maxSessions_def getEnv_def)
  show "0 < maxSessions env" using eq set by simp
qed

theorem maxSessions_effective_witness:
  "maxSessions Map.empty = 10 \<and> numeral_text ''1024'' \<and> dec_value ''1024'' = 1024
     \<and> maxSessions [''MAX_SESSIONS'' \<mapsto> ''1024''] = 1024
     \<and> 0 < maxSessions [''MAX_SESSIONS'' \<mapsto> ''1024'']"
  using maxSessions_effective [of Map.empty]
    maxSessions_effective [of "[''MAX_SESSIONS'' \<mapsto> ''1024'']" "''1024''"]
  by (simp add: numeral_text_def dec_value_def is_digit_def digit_val_def)

text \<open>
  C9 as stated fails: with \<open>MAX_SESSIONS=0\<close> the capacity is 0, which is not positive
  (and text that is no number gives 0 as well).
\<close>

theorem maxSessions_counterexample:
  "\<not> 0 < maxSessions [''MAX_SESSIONS'' \<mapsto> ''0'']"
  by (simp add: maxSessions_def getEnv_def Atoi_def is_digit_def digit_val_def)

lemma Atoi_overflow_before_bad_digit:
  "Atoi ''99999999999999999999x'' = (9223372036854775807, Some ErrRange)
     \<and> Atoi ''12x'' = (0, Some ErrSyntax)"
  by (simp add: Atoi_def is_digit_def digit_val_def)

lemma maxSessions_not_a_number:
  "maxSessions [''MAX_SESSIONS'' \<mapsto> ''many''] = 0 \<and> maxSessions [''MAX_SESSIONS'' \<mapsto> ''''] = 0
     \<and> maxSessions [''MAX_SESSIONS'' \<mapsto> ''-3''] = - 3"
  by (simp add: maxSessions_def getEnv_def Atoi_def is_digit_def digit_val_def)

section \<open>Negotiation\<close>

subsection \<open>The dial loops go through the pairs in credential-major order\<close>

lemma dial_hosts_try_pairs: "dial_hosts b a hs st = try_pairs b (map (Pair a) hs) st"
  by (induction b a hs st rule: dial_hosts.induct) (auto split: sum.splits)

lemma try_pairs_append:
  "fst st = [] \<Longrightarrow>
   try_pairs b (ps @ qs) st =
     (if fst (try_pairs b ps st) = [] then try_pairs b qs (try_pairs b ps st)
      else try_pairs b ps st)"
  by (induction b ps st rule: try_pairs.induct) (auto split: sum.splits)

lemma dial_auths_stop: "fst st \<noteq> [] \<Longrightarrow> dial_auths b hs as st = st"
  by (cases as; cases st) auto

lemma dial_auths_try_pairs:
  "fst st = [] \<Longrightarrow> dial_auths b hs as st = try_pairs b (attempt_order as hs) st"
proof (induction as arbitrary: st)
  case Nil
  then show ?case by (simp add: attempt_order_def)
next
  case (Cons a as)
  obtain cs cl tr where st: "st = (cs, cl, tr)" by (cases st) auto
  let ?st' = "try_pairs b (map (Pair a) hs) st"
  have order: "attempt_order (a # as) hs = map (Pair a) hs @ attempt_order as hs"
    by (simp add: attempt_order_def)
  have first: "dial_auths b hs (a # as) st = dial_auths b hs as ?st'"
    using Cons.prems st by (simp add: dial_hosts_try_pairs)
  show ?case
  proof (cases "fst ?st' = []")
    case True
    then show ?thesis using first Cons.IH [OF True] Cons.prems
      by (simp add: order try_pairs_append)
  next
    case False
    then show ?thesis using first Cons.prems
      by (simp add: order try_pairs_append dial_auths_stop)
  qed
qed

lemma try_pairs_first:
  "k < length ps \<Longrightarrow> ps ! k = (a, h) \<Longrightarrow> Dial b (h @ '':22'') a = Inr c \<Longrightarrow>
   \<forall>p\<in>set (take k ps). unreachable b p \<Longrightarrow>
   try_pairs b ps (cs, cl, tr) = (User a @ ''@'' @ h, Some c, tr @ map dial_of (take (Suc k) ps))"
proof (induction ps arbitrary: k cs cl tr)
  case Nil
  then show ?case by simp
next
  case (Cons p ps)
  obtain a' h' where p: "p = (a', h')" by (cases p) auto
  show ?case
  proof (cases k)
    case 0
    then show ?thesis using Cons.prems p by (simp add: dial_of_def)
  next
    case (Suc k')
    have "unreachable b p" using Cons.prems(4) Suc by simp
    then obtain e where e: "Dial b (h' @ '':22'') a' = Inl e"
      using p by (auto simp: unreachable_def split: sum.splits)
    have "\<forall>q\<in>set (take k' ps). unreachable b q" using Cons.prems(4) Suc by simp
    then have "try_pairs b ps (cs, None, tr @ [dial_of p]) =
        (User a @ ''@'' @ h, Some c, (tr @ [dial_of p]) @ map dial_of (take (Suc k') ps))"
      using Cons.IH [of k'] Cons.prems Suc by simp
    then show ?thesis using e p Suc by (simp add: dial_of_def)
  qed
qed

lemma try_pairs_all_fail:
  "\<forall>p\<in>set ps. unreachable b p \<Longrightarrow>
   try_pairs b ps (cs, cl, tr) = (cs, (if ps = [] then cl else None), tr @ map dial_of ps)"
proof (induction ps arbitrary: cl tr)
  case Nil
  then show ?case by simp
next
  case (Cons p ps)
  obtain a' h' where p: "p = (a', h')" by (cases p) auto
  have "unreachable b p" using Cons.prems by simp
  then obtain e where e: "Dial b (h' @ '':22'') a' = Inl e"
    using p by (auto simp: unreachable_def split: sum.splits)
  show ?case using Cons.IH [of None "tr @ [dial_of p]"] Cons.prems e p
    by (simp add: dial_of_def)
qed

subsection \<open>After the dial loops no further dial is made\<close>

lemma create_sessions_dials:
  "create_sessions b c conStr f ks st = (r, st') \<Longrightarrow>
   filter is_dial (snd (snd st')) = filter is_dial (snd (snd st))"
  by (induction b c conStr f ks st arbitrary: r st' rule: create_sessions.induct)
     (auto split: option.splits)

lemma wait_sessions_dials:
  "filter is_dial (snd (snd (snd (wait_sessions b c cms ks st)))) = filter is_dial (snd (snd (snd st)))"
  by (induction b c cms ks st rule: wait_sessions.induct) (auto split: option.splits)

lemma GetFacts_dials:
  assumes "hostAddrs \<noteq> []"
  shows "filter is_dial (snd (GetFacts b hostAddrs f auths ks1 ks2))
           = filter is_dial (snd (snd (dial_auths b hostAddrs auths ([], None, []))))"
proof -
  obtain conStr cl tr where d: "dial_auths b hostAddrs auths ([], None, []) = (conStr, cl, tr)"
    by (cases "dial_auths b hostAddrs auths ([], None, [])") auto
  show ?thesis
  proof (cases "conStr = [] \<or> cl = None")
    case True
    then show ?thesis using assms d by (auto simp: GetFacts_def)
  next
    case False
    then obtain c where c: "cl = Some c" and cs: "conStr \<noteq> []" by auto
    obtain r cms n tr1 where cr:
      "create_sessions b c conStr f ks1 (Map.empty, 0, tr) = (r, (cms, n, tr1))"
      by (cases "create_sessions b c conStr f ks1 (Map.empty, 0, tr)") auto
    have tr1: "filter is_dial tr1 = filter is_dial tr"
      using create_sessions_dials [OF cr] by simp
    show ?thesis
    proof (cases r)
      case (Some e)
      then show ?thesis using assms d c cs cr tr1 by (simp add: GetFacts_def)
    next
      case None
      obtain fs ce he tr2 where w:
        "wait_sessions b c cms ks2
           (Map.empty, Errorf (''can'' @ [CHR 0x27] @ ''t collect all facts for '' @ conStr), False, tr1)
         = (fs, ce, he, tr2)"
        using prod_cases4 by blast
      have "filter is_dial tr2 = filter is_dial tr1"
        using wait_sessions_dials [of b c cms ks2
          "(Map.empty, Errorf (''can'' @ [CHR 0x27] @ ''t collect all facts for '' @ conStr), False, tr1)"] w
        by simp
      then show ?thesis using assms d c cs cr tr1 None w by (simp add: GetFacts_def)
    qed
  qed
qed

lemma filter_dial_of: "filter is_dial (map dial_of ps) = map dial_of ps"
  by (induction ps) (simp_all add: dial_of_def)

text \<open>
  C2.  When the pair at position \<open>k\<close> (counted from 0) of the credential-major order is
  the first that connects, the dial loops try exactly the pairs up to it, in that order,
  and stop with the handle of that connection and the identity string
  \<open>user@address\<close> of that pair; \<open>GetFacts\<close> makes these \<open>k + 1\<close> connection attempts and
  no other.
\<close>

theorem negotiation_first_reachable:
  assumes "k < length (attempt_order auths hostAddrs)"
    and "attempt_order auths hostAddrs ! k = (auth, host)"
    and "Dial b (host @ '':22'') auth = Inr c"
    and "\<forall>p\<in>set (take k (attempt_order auths hostAddrs)). unreachable b p"
  shows "dial_auths b hostAddrs auths ([], None, [])
           = (User auth @ ''@'' @ host, Some c,
              map dial_of (take (Suc k) (attempt_order auths hostAddrs)))
         \<and> filter is_dial (snd (GetFacts b hostAddrs factsToCollect auths ks1 ks2))
           = map dial_of (take (Suc k) (attempt_order auths hostAddrs))
         \<and> length (filter is_dial (snd (GetFacts b hostAddrs factsToCollect auths ks1 ks2))) = Suc k"
proof -
  have loops: "dial_auths b hostAddrs auths ([], None, [])
      = (User auth @ ''@'' @ host, Some c, map dial_of (take (Suc k) (attempt_order auths hostAddrs)))"
    using try_pairs_first [OF assms, of "[]" None "[]"]
    by (simp add: dial_auths_try_pairs)
  have "attempt_order auths [] = []"
    by (induction auths) (simp_all add: attempt_order_def)
  then have "hostAddrs \<noteq> []"
    using assms(1) by auto
  then have calls: "filter is_dial (snd (GetFacts b hostAddrs factsToCollect auths ks1 ks2))
      = map dial_of (take (Suc k) (attempt_order auths hostAddrs))"
    using GetFacts_dials [of hostAddrs b factsToCollect auths ks1 ks2] loops
    by (simp add: filter_dial_of)
  have "length (take (Suc k) (attempt_order auths hostAddrs)) = Suc k"
    using assms(1) by simp
  then show ?thesis using loops calls by simp
qed

theorem negotiation_first_reachable_witness:
  "3 < length (attempt_order [centos, ec2_user] [''10.0.0.1'', ''10.0.0.2''])
   \<and> attempt_order [centos, ec2_user] [''10.0.0.1'', ''10.0.0.2''] ! 3 = (ec2_user, ''10.0.0.2'')
   \<and> Dial stub (''10.0.0.2'' @ '':22'') ec2_user = Inr 7
   \<and> unreachable stub (centos, ''10.0.0.1'') \<and> unreachable stub (centos, ''10.0.0.2'')
   \<and> unreachable stub (ec2_user, ''10.0.0.1'')
   \<and> dial_auths stub [''10.0.0.1'', ''10.0.0.2''] [centos, ec2_user] ([], None, [])
       = (''ec2-user@10.0.0.2'', Some 7,
          [CDial ''10.0.0.1:22'' centos, CDial ''10.0.0.2:22'' centos,
           CDial ''10.0.0.1:22'' ec2_user, CDial ''10.0.0.2:22'' ec2_user])
   \<and> length (filter is_dial (snd (GetFacts stub [''10.0.0.1'', ''10.0.0.2''] [''kernel'' \<mapsto> ''uname -rs'']
                [centos, ec2_user] [''kernel''] [''kernel'']))) = 4"
  using negotiation_first_reachable [of 3 "[centos, ec2_user]" "[''10.0.0.1'', ''10.0.0.2'']"
      ec2_user "''10.0.0.2''" stub 7 "[''kernel'' \<mapsto> ''uname -rs'']" "[''kernel'']" "[''kernel'']"]
  by (simp add: attempt_order_def unreachable_def stub_def centos_def ec2_user_def dial_of_def)

text \<open>
  C6.  With no address \<open>GetFacts\<close> returns at once, and with no credential the dial loops
  have nothing to go through: in both cases the result is an error with a nil facts
  map, and no call at all is made on the remote side.
\<close>

theorem negotiation_nothing_to_try:
  "(hostAddrs = [] \<longrightarrow>
      GetFacts b hostAddrs factsToCollect auths ks1 ks2
        = (Inr (None, Some (Errorf ''No hosts to get facts'')), [])) \<and>
   (hostAddrs \<noteq> [] \<and> auths = [] \<longrightarrow>
      GetFacts b hostAddrs factsToCollect auths ks1 ks2
        = (Inr (None, Some (Errorf (''Can'' @ [CHR 0x27] @ ''t connect to host with addresses: ''
                                     @ fmt_v hostAddrs))), []))"
  by (simp add: GetFacts_def)

theorem negotiation_nothing_to_try_witness:
  "GetFacts stub [] [''kernel'' \<mapsto> ''uname -rs''] [centos, ec2_user] [''kernel''] [''kernel'']
     = (Inr (None, Some (Errorf ''No hosts to get facts'')), [])
   \<and> GetFacts stub [''10.0.0.1'', ''10.0.0.2''] [''kernel'' \<mapsto> ''uname -rs''] [] [''kernel''] [''kernel'']
     = (Inr (None, Some (Errorf (''Can'' @ [CHR 0x27]
          @ ''t connect to host with addresses: [10.0.0.1 10.0.0.2]''))), [])"
  using negotiation_nothing_to_try [of "[]" stub "[''kernel'' \<mapsto> ''uname -rs'']" "[centos, ec2_user]"
      "[''kernel'']" "[''kernel'']"]
    negotiation_nothing_to_try [of "[''10.0.0.1'', ''10.0.0.2'']" stub "[''kernel'' \<mapsto> ''uname -rs'']" "[]"
      "[''kernel'']" "[''kernel'']"]
  by (simp add: fmt_v_def)

text \<open>
  C5, as the code has it.  When no pair connects, \<open>GetFacts\<close> has tried every pair, in
  credential-major order, and returns an error whose message lists the addresses of the
  target (not the credentials tried with them), with a nil facts map.
\<close>

theorem negotiation_all_fail:
  assumes "hostAddrs \<noteq> []"
    and "\<forall>p\<in>set (attempt_order auths hostAddrs). unreachable b p"
  shows "GetFacts b hostAddrs factsToCollect auths ks1 ks2
           = (Inr (None, Some (Errorf (''Can'' @ [CHR 0x27] @ ''t connect to host with addresses: ''
                                        @ fmt_v hostAddrs))),
              map dial_of (attempt_order auths hostAddrs))"
proof -
  have "dial_auths b hostAddrs auths ([], None, [])
      = ([], (if attempt_order auths hostAddrs = [] then None else None),
         [] @ map dial_of (attempt_order auths hostAddrs))"
    using try_pairs_all_fail [OF assms(2), of "[]" None "[]"]
    by (simp add: dial_auths_try_pairs)
  then show ?thesis using assms(1) by (simp add: GetFacts_def)
qed

theorem negotiation_all_fail_witness:
  "unreachable stub (centos, ''10.0.0.1'') \<and> unreachable stub (centos, ''10.0.0.2'')
   \<and> GetFacts stub [''10.0.0.1'', ''10.0.0.2''] [''kernel'' \<mapsto> ''uname -rs''] [centos] [''kernel''] [''kernel'']
     = (Inr (None, Some (Errorf (''Can'' @ [CHR 0x27]
          @ ''t connect to host with addresses: [10.0.0.1 10.0.0.2]''))),
        [CDial ''10.0.0.1:22'' centos, CDial ''10.0.0.2:22'' centos])"
  using negotiation_all_fail [of "[''10.0.0.1'', ''10.0.0.2'']" "[centos]" stub
      "[''kernel'' \<mapsto> ''uname -rs'']" "[''kernel'']" "[''kernel'']"]
  by (simp add: attempt_order_def unreachable_def stub_def centos_def dial_of_def fmt_v_def)

text \<open>
  C5 as stated fails: the error does not record the attempted pairs.  Two runs that try
  different pairs, and fail, return the same error.
\<close>

theorem negotiation_error_counterexample:
  "fst (GetFacts stub [''10.0.0.1''] Map.empty [centos] [] [])
     = fst (GetFacts stub [''10.0.0.1''] Map.empty [\<lparr>User = ''root'', Timeout = 5\<rparr>] [] [])
   \<and> snd (GetFacts stub [''10.0.0.1''] Map.empty [centos] [] []) = [CDial ''10.0.0.1:22'' centos]
   \<and> snd (GetFacts stub [''10.0.0.1''] Map.empty [\<lparr>User = ''root'', Timeout = 5\<rparr>] [] [])
       = [CDial ''10.0.0.1:22'' \<lparr>User = ''root'', Timeout = 5\<rparr>]
   \<and> centos \<noteq> \<lparr>User = ''root'', Timeout = 5\<rparr>"
  by (simp add: GetFacts_def stub_def centos_def)

section \<open>The command batch\<close>

subsection \<open>The dial loops leave a handle exactly when they leave an identity string\<close>

lemma try_pairs_conStr_client:
  "fst st = [] \<Longrightarrow> fst (snd st) = None \<Longrightarrow>
   (fst (try_pairs b ps st) = [] \<longleftrightarrow> fst (snd (try_pairs b ps st)) = None)"
  by (induction b ps st rule: try_pairs.induct) (auto split: sum.splits)

lemma dial_auths_conStr_client:
  "dial_auths b hostAddrs auths ([], None, []) = (conStr, cl, tr) \<Longrightarrow> (conStr = [] \<longleftrightarrow> cl = None)"
  using try_pairs_conStr_client [of "([], None, [])" b "attempt_order auths hostAddrs"]
  by (simp add: dial_auths_try_pairs)

lemma GetFacts_never_panics: "fst (GetFacts b hostAddrs f auths ks1 ks2) \<noteq> Inl p"
proof -
  obtain conStr cl tr where d: "dial_auths b hostAddrs auths ([], None, []) = (conStr, cl, tr)"
    by (cases "dial_auths b hostAddrs auths ([], None, [])") auto
  show ?thesis
    using d dial_auths_conStr_client [OF d]
    by (auto simp: GetFacts_def split: prod.splits option.splits)
qed

subsection \<open>Starting the commands\<close>

lemma create_sessions_granted:
  "set ks \<subseteq> dom f \<Longrightarrow> \<forall>i<n + length ks. NewSession b c i = None \<Longrightarrow>
   \<forall>name\<in>set ks. Start b c (the (f name)) = None \<Longrightarrow>
   \<exists>cms'. create_sessions b c conStr f ks (cms, n, tr)
             = (None, (cms', n + length ks, tr @ started c f n ks))
          \<and> (\<forall>name. map_option cmd (cms' name)
                = (if name \<in> set ks then f name else map_option cmd (cms name)))"
proof (induction ks arbitrary: cms n tr)
  case Nil
  then show ?case by simp
next
  case (Cons k ks)
  obtain cm where cm: "f k = Some cm" using Cons.prems(1) by auto
  have ns: "NewSession b c n = None" using Cons.prems(2) by simp
  have st: "Start b c cm = None" using Cons.prems(3) cm by simp
  let ?cms = "cms(k \<mapsto> \<lparr>session = n, cmd = cm\<rparr>)"
  let ?tr = "tr @ [CNewSession c, CStart c n cm]"
  have p1: "set ks \<subseteq> dom f" using Cons.prems(1) by simp
  have p2: "\<forall>i<Suc n + length ks. NewSession b c i = None" using Cons.prems(2) by simp
  have p3: "\<forall>name\<in>set ks. Start b c (the (f name)) = None" using Cons.prems(3) by simp
  obtain cms' where
    run: "create_sessions b c conStr f ks (?cms, Suc n, ?tr)
             = (None, (cms', Suc n + length ks, ?tr @ started c f (Suc n) ks))"
    and maps: "\<forall>name. map_option cmd (cms' name)
                = (if name \<in> set ks then f name else map_option cmd (?cms name))"
    using Cons.IH [OF p1 p2 p3, of ?cms ?tr] by blast
  have "create_sessions b c conStr f (k # ks) (cms, n, tr)
      = (None, (cms', n + length (k # ks), tr @ started c f n (k # ks)))"
    using run cm ns st by simp
  moreover have "\<forall>name. map_option cmd (cms' name)
                = (if name \<in> set (k # ks) then f name else map_option cmd (cms name))"
    using maps cm by auto
  ultimately show ?case by blast
qed

lemma create_sessions_refused:
  "j < length ks \<Longrightarrow> set ks \<subseteq> dom f \<Longrightarrow> NewSession b c (n + j) = Some e \<Longrightarrow>
   \<forall>i<j. NewSession b c (n + i) = None \<Longrightarrow>
   \<forall>name\<in>set (take j ks). Start b c (the (f name)) = None \<Longrightarrow>
   \<exists>cms'. create_sessions b c conStr f ks (cms, n, tr)
            = (Some (Wrap e (''Can'' @ [CHR 0x27] @ ''t allocate session for '' @ conStr)),
               (cms', n + j, tr @ started c f n (take j ks) @ [CNewSession c]))"
proof (induction ks arbitrary: j cms n tr)
  case Nil
  then show ?case by simp
next
  case (Cons k ks)
  obtain cm where cm: "f k = Some cm" using Cons.prems(2) by auto
  show ?case
  proof (cases j)
    case 0
    then show ?thesis using Cons.prems cm by simp
  next
    case (Suc j')
    have ns: "NewSession b c n = None" using Cons.prems(4) Suc by force
    have st: "Start b c cm = None" using Cons.prems(5) cm Suc by simp
    let ?cms = "cms(k \<mapsto> \<lparr>session = n, cmd = cm\<rparr>)"
    let ?tr = "tr @ [CNewSession c, CStart c n cm]"
    have later: "\<forall>i<j'. NewSession b c (Suc n + i) = None"
      using Cons.prems(4) Suc by force
    have q1: "j' < length ks" using Cons.prems(1) Suc by simp
    have q2: "set ks \<subseteq> dom f" using Cons.prems(2) by simp
    have q3: "NewSession b c (Suc n + j') = Some e" using Cons.prems(3) Suc by simp
    have q5: "\<forall>name\<in>set (take j' ks). Start b c (the (f name)) = None"
      using Cons.prems(5) Suc by simp
    obtain cms' where "create_sessions b c conStr f ks (?cms, Suc n, ?tr)
            = (Some (Wrap e (''Can'' @ [CHR 0x27] @ ''t allocate session for '' @ conStr)),
               (cms', Suc n + j', ?tr @ started c f (Suc n) (take j' ks) @ [CNewSession c]))"
      using Cons.IH [OF q1 q2 q3 later q5, of ?cms ?tr] by blast
    then show ?thesis using cm ns st Suc by simp
  qed
qed

subsection \<open>Collecting the outputs\<close>

lemma collected_step_none:
  "f k = None \<Longrightarrow> fs ++ (collected b c f |` insert k A) = fs ++ (collected b c f |` A)"
  by (rule ext) (simp add: map_add_def restrict_map_def collected_def)

lemma collected_step_fail:
  "f k = Some cm \<Longrightarrow> Wait b c cm = Some e \<Longrightarrow>
   fs ++ (collected b c f |` insert k A) = fs ++ (collected b c f |` A)"
  by (rule ext) (simp add: map_add_def restrict_map_def collected_def)

lemma collected_step_ok:
  "f k = Some cm \<Longrightarrow> Wait b c cm = None \<Longrightarrow>
   fs ++ (collected b c f |` insert k A)
     = (fs(k \<mapsto> TrimSpace (Stdout b c cm))) ++ (collected b c f |` A)"
  by (rule ext) (auto simp: map_add_def restrict_map_def collected_def split: option.splits)

lemma wait_sessions_result:
  assumes "\<forall>name. map_option cmd (cms name) = f name"
  shows "\<exists>tr'. wait_sessions b c cms ks (fs, ce, he, tr)
           = (fs ++ (collected b c f |` set ks), foldl Wrap ce (failures b c f ks),
              (he \<or> failures b c f ks \<noteq> []), tr')"
proof (induction ks arbitrary: fs ce he tr)
  case Nil
  then show ?case by simp
next
  case (Cons k ks)
  show ?case
  proof (cases "f k")
    case None
    then have "cms k = None" using assms by (metis option.map_disc_iff)
    then have step: "wait_sessions b c cms (k # ks) (fs, ce, he, tr)
        = wait_sessions b c cms ks (fs, ce, he, tr)"
      by simp
    have m: "fs ++ (collected b c f |` set (k # ks)) = fs ++ (collected b c f |` set ks)"
      using collected_step_none [where f = f and k = k and A = "set ks"] None by simp
    have fl: "failures b c f (k # ks) = failures b c f ks"
      using None by simp
    show ?thesis unfolding step m fl by (rule Cons.IH)
  next
    case (Some cm)
    then obtain rc where rc: "cms k = Some rc" "cmd rc = cm"
      using assms by (metis map_option_eq_Some)
    let ?tr = "tr @ [CWait c (session rc), CSessionClose c (session rc)]"
    show ?thesis
    proof (cases "Wait b c cm")
      case None
      have step: "wait_sessions b c cms (k # ks) (fs, ce, he, tr)
          = wait_sessions b c cms ks (fs(k \<mapsto> TrimSpace (Stdout b c cm)), ce, he, ?tr)"
        using rc None by simp
      have m: "fs ++ (collected b c f |` set (k # ks))
          = (fs(k \<mapsto> TrimSpace (Stdout b c cm))) ++ (collected b c f |` set ks)"
        using collected_step_ok [where f = f and k = k and A = "set ks"] Some None by simp
      have fl: "failures b c f (k # ks) = failures b c f ks"
        using Some None by simp
      show ?thesis unfolding step m fl by (rule Cons.IH)
    next
      case (Some e)
      let ?msg = "fail_msg k (Error e) (Stderr b c cm)"
      have step: "wait_sessions b c cms (k # ks) (fs, ce, he, tr)
          = wait_sessions b c cms ks (fs, Wrap ce ?msg, True, ?tr)"
        using rc Some by simp
      have m: "fs ++ (collected b c f |` set (k # ks)) = fs ++ (collected b c f |` set ks)"
        using collected_step_fail [where f = f and k = k and A = "set ks"] \<open>f k = Some cm\<close> Some by simp
      have fl: "failures b c f (k # ks) = ?msg # failures b c f ks"
        using \<open>f k = Some cm\<close> Some by simp
      obtain tr' where "wait_sessions b c cms ks (fs, Wrap ce ?msg, True, ?tr)
          = (fs ++ (collected b c f |` set ks), foldl Wrap (Wrap ce ?msg) (failures b c f ks),
             (True \<or> failures b c f ks \<noteq> []), tr')"
        using Cons.IH by blast
      then show ?thesis unfolding step m fl by simp
    qed
  qed
qed

lemma collected_whole: "collected b c f |` dom f = collected b c f"
  by (rule ext) (auto simp: restrict_map_def collected_def split: option.splits)

lemma messages_foldl_Wrap: "messages (foldl Wrap e msgs) = rev msgs @ messages e"
  by (induction msgs arbitrary: e) simp_all

lemma failure_recorded:
  "name \<in> set ks \<Longrightarrow> f name = Some cm \<Longrightarrow> Wait b c cm = Some e \<Longrightarrow>
   fail_msg name (Error e) (Stderr b c cm) \<in> set (failures b c f ks)"
  by (induction ks) (auto split: option.splits)

lemma no_failure:
  "(failures b c f ks = []) = (\<forall>name\<in>set ks. \<forall>cm. f name = Some cm \<longrightarrow> Wait b c cm = None)"
  by (induction ks) (auto split: option.splits)

lemma GetFacts_batch:
  assumes "hostAddrs \<noteq> []"
    and "dial_auths b hostAddrs auths ([], None, []) = (conStr, Some c, tr)"
    and "range_order f ks1" and "range_order f ks2"
    and "\<forall>n<length ks1. NewSession b c n = None"
    and "\<forall>name\<in>set ks1. Start b c (the (f name)) = None"
  shows "fst (GetFacts b hostAddrs f auths ks1 ks2)
           = Inr (Some (collected b c f), aggregate conStr (failures b c f ks2))"
proof -
  have cs: "conStr \<noteq> []"
    using dial_auths_conStr_client [OF assms(2)] by simp
  have sub: "set ks1 \<subseteq> dom f" using assms(3) by (simp add: range_order_def)
  have all: "\<forall>i<0 + length ks1. NewSession b c i = None" using assms(5) by simp
  obtain cms where
    cr: "create_sessions b c conStr f ks1 (Map.empty, 0, tr)
           = (None, (cms, length ks1, tr @ started c f 0 ks1))"
    and maps: "\<forall>name. map_option cmd (cms name) = (if name \<in> set ks1 then f name else None)"
    using create_sessions_granted [OF sub all assms(6), of conStr Map.empty tr] by auto
  have "\<forall>name. map_option cmd (cms name) = f name"
    using maps assms(3) by (auto simp: range_order_def)
  then obtain tr' where w:
    "wait_sessions b c cms ks2
       (Map.empty, Errorf (''can'' @ [CHR 0x27] @ ''t collect all facts for '' @ conStr), False,
        tr @ started c f 0 ks1)
     = (Map.empty ++ (collected b c f |` set ks2),
        foldl Wrap (Errorf (''can'' @ [CHR 0x27] @ ''t collect all facts for '' @ conStr))
          (failures b c f ks2),
        (False \<or> failures b c f ks2 \<noteq> []), tr')"
    using wait_sessions_result by blast
  have "set ks2 = dom f" using assms(4) by (simp add: range_order_def)
  then have whole: "collected b c f |` set ks2 = collected b c f"
    by (simp add: collected_whole)
  show ?thesis
    using assms(1,2) cs cr w whole by (simp add: GetFacts_def aggregate_def)
qed

lemma format_row_Facts:
  "format_row inst f = Inr row \<Longrightarrow> Facts row = row_Facts (facts inst) f"
  by (auto simp: format_row_def split: sum.splits)

text \<open>
  C3.  On a connection \<open>c\<close> found under the identity \<open>conStr\<close>, when every session is
  granted and every command is started, \<open>GetFacts\<close> returns the facts map that holds
  exactly the trimmed output of every label whose command succeeded, together with the
  aggregate error: nil when no command failed, and otherwise the base error wrapped with
  one message per failing label, of the text
  \<open>Failed to collect '<label>' fact: <failure> (@err <standard error>)\<close>.  The error takes nothing from the facts map.  The row of the target
  carries the trimmed output for a succeeding label and the default value for a failing
  one.
\<close>

theorem batch_partial_results:
  assumes "hostAddrs \<noteq> []"
    and "dial_auths b hostAddrs auths ([], None, []) = (conStr, Some c, tr)"
    and "range_order f ks1" and "range_order f ks2"
    and "\<forall>n<length ks1. NewSession b c n = None"
    and "\<forall>name\<in>set ks1. Start b c (the (f name)) = None"
  shows "fst (GetFacts b hostAddrs f auths ks1 ks2)
           = Inr (Some (collected b c f), aggregate conStr (failures b c f ks2))
     \<and> (\<forall>name cm. f name = Some cm \<and> Wait b c cm = None
           \<longrightarrow> collected b c f name = Some (TrimSpace (Stdout b c cm)))
     \<and> (\<forall>name cm e. f name = Some cm \<and> Wait b c cm = Some e
           \<longrightarrow> collected b c f name = None
               \<and> (\<exists>ce. aggregate conStr (failures b c f ks2) = Some ce
                      \<and> (''Failed to collect '' @ [CHR 0x27] @ name @ [CHR 0x27] @ '' fact: '' @ Error e
                            @ '' (@err '' @ Stderr b c cm @ '')'')
                          \<in> set (messages ce)))
     \<and> ((aggregate conStr (failures b c f ks2) = None)
          = (\<forall>name cm. f name = Some cm \<longrightarrow> Wait b c cm = None))
     \<and> (\<forall>inst row name cm.
           format_row (inst\<lparr>facts := Some (collected b c f),
                            err := aggregate conStr (failures b c f ks2)\<rparr>) f = Inr row
             \<and> f name = Some cm
           \<longrightarrow> Facts row name
                 = Some (case Wait b c cm of
                           None \<Rightarrow> TrimSpace (Stdout b c cm)
                         | Some e \<Rightarrow> unkRes))"
proof -
  have keys: "set ks2 = dom f" using assms(4) by (simp add: range_order_def)
  have result: "fst (GetFacts b hostAddrs f auths ks1 ks2)
           = Inr (Some (collected b c f), aggregate conStr (failures b c f ks2))"
    by (rule GetFacts_batch [OF assms])
  have ok: "\<forall>name cm. f name = Some cm \<and> Wait b c cm = None
           \<longrightarrow> collected b c f name = Some (TrimSpace (Stdout b c cm))"
    by (simp add: collected_def)
  have failed: "\<forall>name cm e. f name = Some cm \<and> Wait b c cm = Some e
           \<longrightarrow> collected b c f name = None
               \<and> (\<exists>ce. aggregate conStr (failures b c f ks2) = Some ce
                      \<and> (''Failed to collect '' @ [CHR 0x27] @ name @ [CHR 0x27] @ '' fact: '' @ Error e
                            @ '' (@err '' @ Stderr b c cm @ '')'')
                          \<in> set (messages ce))"
  proof (intro allI impI)
    fix name cm e
    assume a: "f name = Some cm \<and> Wait b c cm = Some e"
    then have "name \<in> set ks2" using keys by auto
    then have m: "fail_msg name (Error e) (Stderr b c cm) \<in> set (failures b c f ks2)"
      using a failure_recorded by simp
    then have "failures b c f ks2 \<noteq> []" by auto
    then have "aggregate conStr (failures b c f ks2)
        = Some (foldl Wrap (Errorf (''can'' @ [CHR 0x27] @ ''t collect all facts for '' @ conStr))
                  (failures b c f ks2))"
      by (simp add: aggregate_def)
    moreover have "fail_msg name (Error e) (Stderr b c cm)
        \<in> set (messages (foldl Wrap (Errorf (''can'' @ [CHR 0x27] @ ''t collect all facts for '' @ conStr))
                  (failures b c f ks2)))"
      using m by (simp add: messages_foldl_Wrap)
    moreover have "collected b c f name = None"
      using a by (simp add: collected_def)
    ultimately show "collected b c f name = None
               \<and> (\<exists>ce. aggregate conStr (failures b c f ks2) = Some ce
                      \<and> (''Failed to collect '' @ [CHR 0x27] @ name @ [CHR 0x27] @ '' fact: '' @ Error e
                            @ '' (@err '' @ Stderr b c cm @ '')'')
                          \<in> set (messages ce))"
      by (simp add: fail_msg_def)
  qed
  have none: "(aggregate conStr (failures b c f ks2) = None)
          = (\<forall>name cm. f name = Some cm \<longrightarrow> Wait b c cm = None)"
    using keys by (auto simp: aggregate_def no_failure)
  have row: "\<forall>inst row name cm.
           format_row (inst\<lparr>facts := Some (collected b c f),
                            err := aggregate conStr (failures b c f ks2)\<rparr>) f = Inr row
             \<and> f name = Some cm
           \<longrightarrow> Facts row name
                 = Some (case Wait b c cm of
                           None \<Rightarrow> TrimSpace (Stdout b c cm)
                         | Some e \<Rightarrow> unkRes)"
  proof (intro allI impI)
    fix inst row name cm
    assume a: "format_row (inst\<lparr>facts := Some (collected b c f),
                            err := aggregate conStr (failures b c f ks2)\<rparr>) f = Inr row
             \<and> f name = Some cm"
    then have "Facts row = row_Facts (Some (collected b c f)) f"
      using format_row_Facts by fastforce
    then show "Facts row name
                 = Some (case Wait b c cm of
                           None \<Rightarrow> TrimSpace (Stdout b c cm)
                         | Some e \<Rightarrow> unkRes)"
      using a by (simp add: row_Facts_def collected_def split: option.splits)
  qed
  show ?thesis using result ok failed none row by blast
qed

theorem batch_partial_results_witness:
  "range_order three_facts [''kernel'', ''broken'', ''host'']
   \<and> range_order three_facts [''host'', ''broken'', ''kernel'']
   \<and> dial_auths stub [''10.0.0.2''] [ec2_user] ([], None, [])
       = (''ec2-user@10.0.0.2'', Some 7, [CDial ''10.0.0.2:22'' ec2_user])
   \<and> fst (GetFacts stub [''10.0.0.2''] three_facts [ec2_user]
            [''kernel'', ''broken'', ''host''] [''host'', ''broken'', ''kernel''])
       = Inr (Some (collected stub 7 three_facts),
              Some (Wrap (Errorf (''can'' @ [CHR 0x27] @ ''t collect all facts for ec2-user@10.0.0.2''))
                      (''Failed to collect '' @ [CHR 0x27] @ ''broken'' @ [CHR 0x27]
                        @ '' fact: Process exited with status 1 (@err boom)'')))
   \<and> Error (Wrap (Errorf (''can'' @ [CHR 0x27] @ ''t collect all facts for ec2-user@10.0.0.2''))
               (''Failed to collect '' @ [CHR 0x27] @ ''broken'' @ [CHR 0x27]
                 @ '' fact: Process exited with status 1 (@err boom)''))
       = ''Failed to collect '' @ [CHR 0x27] @ ''broken'' @ [CHR 0x27]
           @ '' fact: Process exited with status 1 (@err boom): can'' @ [CHR 0x27]
           @ ''t collect all facts for ec2-user@10.0.0.2''
   \<and> collected stub 7 three_facts ''kernel'' = Some ''uname -rs''
   \<and> collected stub 7 three_facts ''host'' = Some ''hostname''
   \<and> collected stub 7 three_facts ''broken'' = None
   \<and> row_Facts (Some (collected stub 7 three_facts)) three_facts ''kernel'' = Some ''uname -rs''
   \<and> row_Facts (Some (collected stub 7 three_facts)) three_facts ''broken'' = Some []"
proof -
  have r1: "range_order three_facts [''kernel'', ''broken'', ''host'']"
    by (auto simp: range_order_def three_facts_def)
  have r2: "range_order three_facts [''host'', ''broken'', ''kernel'']"
    by (auto simp: range_order_def three_facts_def)
  have d: "dial_auths stub [''10.0.0.2''] [ec2_user] ([], None, [])
       = (''ec2-user@10.0.0.2'', Some 7, [CDial ''10.0.0.2:22'' ec2_user])"
    by (simp add: stub_def ec2_user_def)
  have g: "\<forall>n<length [''kernel'', ''broken'', ''host'']. NewSession stub 7 n = None"
    by (simp add: stub_def)
  have s: "\<forall>name\<in>set [''kernel'', ''broken'', ''host'']. Start stub 7 (the (three_facts name)) = None"
    by (simp add: stub_def)
  have trim: "TrimSpace ('' uname -rs'' @ [CHR 0x0A]) = ''uname -rs''"
      "TrimSpace ('' hostname'' @ [CHR 0x0A]) = ''hostname''"
    by (simp_all add: TrimSpace_def strip_one_def space_runes_def)
  have c1: "collected stub 7 three_facts ''kernel'' = Some ''uname -rs''"
    using trim by (simp add: collected_def three_facts_def stub_def)
  have c2: "collected stub 7 three_facts ''host'' = Some ''hostname''"
    using trim by (simp add: collected_def three_facts_def stub_def)
  have c3: "collected stub 7 three_facts ''broken'' = None"
    by (simp add: collected_def three_facts_def stub_def)
  have fl: "failures stub 7 three_facts [''host'', ''broken'', ''kernel'']
      = [''Failed to collect '' @ [CHR 0x27] @ ''broken'' @ [CHR 0x27]
           @ '' fact: Process exited with status 1 (@err boom)'']"
    by (simp add: three_facts_def stub_def fail_msg_def)
  have rows: "row_Facts (Some (collected stub 7 three_facts)) three_facts ''kernel'' = Some ''uname -rs''"
      "row_Facts (Some (collected stub 7 three_facts)) three_facts ''broken'' = Some []"
    using c1 c3 by (simp_all add: row_Facts_def three_facts_def unkRes_def)
  have "fst (GetFacts stub [''10.0.0.2''] three_facts [ec2_user]
            [''kernel'', ''broken'', ''host''] [''host'', ''broken'', ''kernel''])
       = Inr (Some (collected stub 7 three_facts),
              aggregate ''ec2-user@10.0.0.2''
                (failures stub 7 three_facts [''host'', ''broken'', ''kernel'']))"
    using batch_partial_results [of "[''10.0.0.2'']" stub "[ec2_user]" "''ec2-user@10.0.0.2''" 7
        "[CDial ''10.0.0.2:22'' ec2_user]" three_facts "[''kernel'', ''broken'', ''host'']"
        "[''host'', ''broken'', ''kernel'']"] r1 r2 d g s
    by blast
  then show ?thesis using r1 r2 d c1 c2 c3 rows fl by (simp add: aggregate_def)
qed

text \<open>
  C4.  On a connection \<open>c\<close> found under the identity \<open>conStr\<close>, when the request for
  session number \<open>j\<close> is the first the server refuses, \<open>GetFacts\<close> returns that error
  (wrapped) with a nil facts map: nothing was collected yet.  After the refused request
  it makes one more call, the deferred \<open>client.Close()\<close>: no session is requested or
  started for the remaining labels, and no session is waited for.  In the job, the call
  changes the slot of its own instance only and the program goes on (no panic).
\<close>

theorem session_refused:
  assumes "hostAddrs \<noteq> []"
    and "dial_auths b hostAddrs auths ([], None, []) = (conStr, Some c, tr)"
    and "range_order f ks1"
    and "j < length ks1"
    and "NewSession b c j = Some e"
    and "\<forall>i<j. NewSession b c i = None"
    and "\<forall>name\<in>set (take j ks1). Start b c (the (f name)) = None"
  shows "GetFacts b hostAddrs f auths ks1 ks2
           = (Inr (None, Some (Wrap e (''Can'' @ [CHR 0x27] @ ''t allocate session for '' @ conStr))),
              tr @ started c f 0 (take j ks1) @ [CNewSession c, CClose c])
     \<and> (crashed s = None \<and> i < length (pcs s) \<and> i < length (instances s)
          \<and> pcs s ! i = InGetFacts \<and> addrs (instances s ! i) = hostAddrs
        \<longrightarrow> processFact_step b f auths cap s (Collect i ks1 ks2)
              = Some (s\<lparr>pcs := (pcs s)[i := AtRecv],
                        instances := (instances s)[i := (instances s ! i)
                          \<lparr>facts := None,
                           err := Some (Wrap e (''Can'' @ [CHR 0x27] @ ''t allocate session for ''
                                                 @ conStr))\<rparr>]\<rparr>))"
proof -
  have cs: "conStr \<noteq> []"
    using dial_auths_conStr_client [OF assms(2)] by simp
  have sub: "set ks1 \<subseteq> dom f" using assms(3) by (simp add: range_order_def)
  have ref: "NewSession b c (0 + j) = Some e" using assms(5) by simp
  have granted: "\<forall>i<j. NewSession b c (0 + i) = None" using assms(6) by simp
  obtain cms where cr: "create_sessions b c conStr f ks1 (Map.empty, 0, tr)
            = (Some (Wrap e (''Can'' @ [CHR 0x27] @ ''t allocate session for '' @ conStr)),
               (cms, 0 + j, tr @ started c f 0 (take j ks1) @ [CNewSession c]))"
    using create_sessions_refused [OF assms(4) sub ref granted assms(7), of conStr Map.empty tr]
    by blast
  have result: "GetFacts b hostAddrs f auths ks1 ks2
           = (Inr (None, Some (Wrap e (''Can'' @ [CHR 0x27] @ ''t allocate session for '' @ conStr))),
              tr @ started c f 0 (take j ks1) @ [CNewSession c, CClose c])"
    using assms(1,2) cs cr by (simp add: GetFacts_def)
  show ?thesis using result by simp
qed

theorem session_refused_witness:
  "range_order three_facts [''kernel'', ''broken'', ''host'']
   \<and> dial_auths stub_one_session [''10.0.0.2''] [ec2_user] ([], None, [])
       = (''ec2-user@10.0.0.2'', Some 7, [CDial ''10.0.0.2:22'' ec2_user])
   \<and> NewSession stub_one_session 7 1 = Some (Ext ''open failed'')
   \<and> NewSession stub_one_session 7 0 = None
   \<and> Start stub_one_session 7 ''uname -rs'' = None
   \<and> GetFacts stub_one_session [''10.0.0.2''] three_facts [ec2_user]
        [''kernel'', ''broken'', ''host''] [''host'', ''broken'', ''kernel'']
       = (Inr (None, Some (Wrap (Ext ''open failed'')
                 (''Can'' @ [CHR 0x27] @ ''t allocate session for ec2-user@10.0.0.2''))),
          [CDial ''10.0.0.2:22'' ec2_user, CNewSession 7, CStart 7 0 ''uname -rs'',
           CNewSession 7, CClose 7])
   \<and> processFact_step stub_one_session three_facts [ec2_user] 2 one_running
        (Collect 0 [''kernel'', ''broken'', ''host''] [''host'', ''broken'', ''kernel''])
       = Some \<lparr>limiter = [0], pcs = [AtRecv, AtSend],
               instances = [web1\<lparr>facts := None,
                                  err := Some (Wrap (Ext ''open failed'')
                                    (''Can'' @ [CHR 0x27] @ ''t allocate session for ec2-user@10.0.0.2''))\<rparr>,
                            db1],
               crashed = None\<rparr>"
proof -
  have r1: "range_order three_facts [''kernel'', ''broken'', ''host'']"
    by (auto simp: range_order_def three_facts_def)
  have d: "dial_auths stub_one_session [''10.0.0.2''] [ec2_user] ([], None, [])
       = (''ec2-user@10.0.0.2'', Some 7, [CDial ''10.0.0.2:22'' ec2_user])"
    by (simp add: stub_one_session_def stub_def ec2_user_def)
  have n1: "NewSession stub_one_session 7 1 = Some (Ext ''open failed'')"
    by (simp add: stub_one_session_def)
  have n0: "\<forall>i<(1::nat). NewSession stub_one_session 7 i = None"
    by (simp add: stub_one_session_def)
  have st: "\<forall>name\<in>set (take 1 [''kernel'', ''broken'', ''host'']).
      Start stub_one_session 7 (the (three_facts name)) = None"
    by (simp add: stub_one_session_def stub_def)
  have w: "addrs web1 = [''10.0.0.2'']" by (simp add: web1_def)
  show ?thesis
    using session_refused [of "[''10.0.0.2'']" stub_one_session "[ec2_user]" "''ec2-user@10.0.0.2''" 7
        "[CDial ''10.0.0.2:22'' ec2_user]" three_facts "[''kernel'', ''broken'', ''host'']" 1
        "Ext ''open failed''" "[''host'', ''broken'', ''kernel'']" one_running 0 2] r1 d n1 n0 st w
    by (simp add: one_running_def three_facts_def stub_one_session_def stub_def)
qed

section \<open>The result table\<close>

lemma formatResult_rows:
  "formatResult insts f = Inr rows \<Longrightarrow>
   length rows = length insts \<and> (\<forall>i<length insts. format_row (insts ! i) f = Inr (rows ! i))"
proof (induction insts arbitrary: rows)
  case Nil
  then show ?case by simp
next
  case (Cons inst insts)
  obtain row rest where row: "format_row inst f = Inr row"
    and rest: "formatResult insts f = Inr rest" and rows: "rows = row # rest"
    using Cons.prems by (auto split: sum.splits)
  have ih: "length rest = length insts \<and> (\<forall>i<length insts. format_row (insts ! i) f = Inr (rest ! i))"
    using Cons.IH [OF rest] .
  show ?case
  proof (intro conjI allI impI)
    show "length rows = length (inst # insts)" using ih rows by simp
  next
    fix i
    assume "i < length (inst # insts)"
    then show "format_row ((inst # insts) ! i) f = Inr (rows ! i)"
      using ih row rows by (cases i) simp_all
  qed
qed

lemma find_Name_total:
  "list_all (\<lambda>t. Key t \<noteq> None \<and> Value t \<noteq> None) tags \<Longrightarrow> \<exists>v. find_Name tags nm = Inr v"
  by (induction tags) auto

lemma formatResult_total:
  "list_all well_tagged insts \<Longrightarrow> \<exists>rows. formatResult insts f = Inr rows"
proof (induction insts)
  case Nil
  then show ?case by simp
next
  case (Cons inst insts)
  obtain v where "find_Name (Tags (description inst)) [] = Inr v"
    using Cons.prems find_Name_total by (auto simp: well_tagged_def)
  then obtain row where "format_row inst f = Inr row"
    by (simp add: format_row_def)
  moreover obtain rows where "formatResult insts f = Inr rows"
    using Cons by auto
  ultimately show ?case by simp
qed

lemma dom_row_Facts: "dom (row_Facts (Some m) f) = dom f"
  by (auto simp: row_Facts_def split: option.splits)

text \<open>
  C1, as the code has it.  In the table \<open>formatResult\<close> returns, the row of a target
  whose facts map is present has exactly the labels of \<open>factsToCollect\<close>, each with the
  value collected for the target, or the default (the empty text) when there is none;
  the row of a target whose facts map is nil has no label at all.
\<close>

theorem formatResult_labels:
  assumes "formatResult insts f = Inr rows" and "i < length insts"
  shows "i < length rows
     \<and> (facts (insts ! i) = None \<longrightarrow> Facts (rows ! i) = Map.empty)
     \<and> (\<forall>m. facts (insts ! i) = Some m
           \<longrightarrow> dom (Facts (rows ! i)) = dom f
               \<and> (\<forall>k\<in>dom f. Facts (rows ! i) k
                                = Some (case m k of Some v \<Rightarrow> v | None \<Rightarrow> unkRes)))"
proof -
  have len: "length rows = length insts"
    and row: "format_row (insts ! i) f = Inr (rows ! i)"
    using formatResult_rows [OF assms(1)] assms(2) by simp_all
  have fs: "Facts (rows ! i) = row_Facts (facts (insts ! i)) f"
    using format_row_Facts [OF row] .
  have absent: "facts (insts ! i) = None \<longrightarrow> Facts (rows ! i) = Map.empty"
    using fs by (simp add: row_Facts_def)
  have present: "\<forall>m. facts (insts ! i) = Some m
           \<longrightarrow> dom (Facts (rows ! i)) = dom f
               \<and> (\<forall>k\<in>dom f. Facts (rows ! i) k
                                = Some (case m k of Some v \<Rightarrow> v | None \<Rightarrow> unkRes))"
    using fs by (auto simp: dom_row_Facts) (auto simp: row_Facts_def)
  show ?thesis using len assms(2) absent present by simp
qed

theorem formatResult_labels_witness:
  "formatResult [web1\<lparr>facts := Some [''kernel'' \<mapsto> ''Linux 5.10'']\<rparr>, db1]
       [''kernel'' \<mapsto> ''uname -rs'', ''host'' \<mapsto> ''hostname'']
     = Inr [\<lparr>InstanceId = ''i-01'', Name = ''web1'', IPs = [''10.0.0.2''],
             Facts = row_Facts (Some [''kernel'' \<mapsto> ''Linux 5.10''])
                       [''kernel'' \<mapsto> ''uname -rs'', ''host'' \<mapsto> ''hostname'']\<rparr>,
            \<lparr>InstanceId = ''i-02'', Name = [], IPs = [''10.0.0.9''],
             Facts = row_Facts None [''kernel'' \<mapsto> ''uname -rs'', ''host'' \<mapsto> ''hostname'']\<rparr>]
   \<and> dom (row_Facts (Some [''kernel'' \<mapsto> ''Linux 5.10''])
            [''kernel'' \<mapsto> ''uname -rs'', ''host'' \<mapsto> ''hostname''])
       = dom [''kernel'' \<mapsto> ''uname -rs'', ''host'' \<mapsto> ''hostname'']
   \<and> row_Facts (Some [''kernel'' \<mapsto> ''Linux 5.10''])
        [''kernel'' \<mapsto> ''uname -rs'', ''host'' \<mapsto> ''hostname''] ''kernel'' = Some ''Linux 5.10''
   \<and> row_Facts (Some [''kernel'' \<mapsto> ''Linux 5.10''])
        [''kernel'' \<mapsto> ''uname -rs'', ''host'' \<mapsto> ''hostname''] ''host'' = Some []
   \<and> row_Facts None [''kernel'' \<mapsto> ''uname -rs'', ''host'' \<mapsto> ''hostname''] = Map.empty"
proof -
  let ?f = "[''kernel'' \<mapsto> ''uname -rs'', ''host'' \<mapsto> ''hostname'']"
  let ?m = "[''kernel'' \<mapsto> ''Linux 5.10'']"
  let ?insts = "[web1\<lparr>facts := Some ?m\<rparr>, db1]"
  let ?rows = "[\<lparr>InstanceId = ''i-01'', Name = ''web1'', IPs = [''10.0.0.2''],
                 Facts = row_Facts (Some ?m) ?f\<rparr>,
                \<lparr>InstanceId = ''i-02'', Name = [], IPs = [''10.0.0.9''],
                 Facts = row_Facts None ?f\<rparr>]"
  have t: "formatResult ?insts ?f = Inr ?rows"
    by (simp add: format_row_def web1_def db1_def)
  have "facts (?insts ! 0) = Some ?m" by simp
  then have "dom (Facts (?rows ! 0)) = dom ?f
      \<and> (\<forall>k\<in>dom ?f. Facts (?rows ! 0) k = Some (case ?m k of Some v \<Rightarrow> v | None \<Rightarrow> unkRes))"
    using formatResult_labels [OF t, of 0] by simp
  moreover have "facts (?insts ! 1) = None" by (simp add: db1_def)
  then have "Facts (?rows ! 1) = Map.empty"
    using formatResult_labels [OF t, of 1] by simp
  ultimately show ?thesis using t by (simp add: unkRes_def)
qed

text \<open>
  C1 as stated fails for a target without a connection: \<open>GetFacts\<close> returns a nil facts
  map, and the row of the target has no entry for the label \<open>kernel\<close> (not the default
  value).
\<close>

theorem formatResult_labels_counterexample:
  "fst (GetFacts stub (addrs db1) [''kernel'' \<mapsto> ''uname -rs''] [centos, ec2_user] [''kernel''] [''kernel''])
     = Inr (None, Some (Errorf (''Can'' @ [CHR 0x27] @ ''t connect to host with addresses: [10.0.0.9]'')))
   \<and> formatResult
        [db1\<lparr>facts := None,
             err := Some (Errorf (''Can'' @ [CHR 0x27] @ ''t connect to host with addresses: [10.0.0.9]''))\<rparr>]
        [''kernel'' \<mapsto> ''uname -rs'']
       = Inr [\<lparr>InstanceId = ''i-02'', Name = [], IPs = [''10.0.0.9''], Facts = Map.empty\<rparr>]
   \<and> Facts \<lparr>InstanceId = ''i-02'', Name = [], IPs = [''10.0.0.9''], Facts = Map.empty\<rparr> ''kernel''
       \<noteq> Some unkRes"
  by (simp add: GetFacts_def stub_def db1_def centos_def ec2_user_def fmt_v_def format_row_def
      row_Facts_def)

section \<open>The admission gate\<close>

lemma count_update:
  "i < length xs \<Longrightarrow>
   length (filter P (xs[i := y])) + (if P (xs ! i) then 1 else 0)
     = length (filter P xs) + (if P y then 1 else 0)"
proof (induction xs arbitrary: i)
  case Nil
  then show ?case by simp
next
  case (Cons x xs)
  show ?case
  proof (cases i)
    case 0
    then show ?thesis by simp
  next
    case (Suc i')
    then show ?thesis using Cons.IH [of i'] Cons.prems by simp
  qed
qed

lemma count_pos:
  assumes "i < length xs" and "P (xs ! i)"
  shows "0 < length (filter P xs)"
proof -
  have "xs ! i \<in> set (filter P xs)" using assms by simp
  then show ?thesis by (rule length_pos_if_in_set)
qed

lemma running_le_holding: "running ps \<le> holding ps"
  by (induction ps) (simp_all add: running_def holding_def)

lemma holding_enter:
  "i < length ps \<Longrightarrow> ps ! i = AtSend \<Longrightarrow> holding (ps[i := InGetFacts]) = Suc (holding ps)"
  using count_update [of i ps "\<lambda>p. p = InGetFacts \<or> p = AtRecv" InGetFacts]
  by (simp add: holding_def)

lemma holding_stay:
  "i < length ps \<Longrightarrow> ps ! i = InGetFacts \<Longrightarrow> holding (ps[i := AtRecv]) = holding ps"
  using count_update [of i ps "\<lambda>p. p = InGetFacts \<or> p = AtRecv" AtRecv]
  by (simp add: holding_def)

lemma holding_leave:
  "i < length ps \<Longrightarrow> ps ! i = AtRecv \<Longrightarrow> Suc (holding (ps[i := Finished])) = holding ps"
  using count_update [of i ps "\<lambda>p. p = InGetFacts \<or> p = AtRecv" Finished]
  by (simp add: holding_def)

lemma holding_pos: "i < length ps \<Longrightarrow> ps ! i = AtRecv \<Longrightarrow> 0 < holding ps"
  using count_pos [of i ps "\<lambda>p. p = InGetFacts \<or> p = AtRecv"]
  by (simp add: holding_def)

text \<open>
  The invariant of the job: no panic, and the buffer of the channel holds one value per
  goroutine that is between its send and its receive, within the capacity.
\<close>

definition gate_inv :: "nat \<Rightarrow> jobstate \<Rightarrow> bool" where
  "gate_inv cap s =
     (crashed s = None \<and> holding (pcs s) = length (limiter s) \<and> length (limiter s) \<le> cap)"

lemma gate_inv_dispatch: "gate_inv cap (dispatch insts)"
proof -
  have "filter (\<lambda>p. p = InGetFacts \<or> p = AtRecv) (replicate n AtSend) = []" for n
    by (induction n) simp_all
  then show ?thesis by (simp add: gate_inv_def dispatch_def holding_def)
qed

lemma gate_inv_step:
  assumes "gate_inv cap s" and "processFact_step b f auths cap s st = Some s'"
  shows "gate_inv cap s'"
proof (cases st)
  case (Send i)
  then show ?thesis
    using assms by (auto simp: gate_inv_def holding_enter split: if_splits)
next
  case (Handoff i j)
  have "\<not> (j < length (pcs s) \<and> pcs s ! j = AtRecv \<and> limiter s = [])"
    using assms(1) holding_pos [of j "pcs s"] by (auto simp: gate_inv_def)
  then show ?thesis
    using assms Handoff by (auto split: if_splits)
next
  case (Collect i ks1 ks2)
  obtain fs e where r: "fst (GetFacts b (addrs (instances s ! i)) f auths ks1 ks2) = Inr (fs, e)"
    using GetFacts_never_panics [of b "addrs (instances s ! i)" f auths ks1 ks2]
    by (cases "fst (GetFacts b (addrs (instances s ! i)) f auths ks1 ks2)") auto
  show ?thesis
    using assms Collect r by (auto simp: gate_inv_def holding_stay split: if_splits)
next
  case (Recv i)
  have "i < length (pcs s) \<Longrightarrow> pcs s ! i = AtRecv \<Longrightarrow> limiter s \<noteq> [] \<Longrightarrow>
      holding ((pcs s)[i := Finished]) = length (tl (limiter s))"
    using assms(1) holding_leave [of i "pcs s"] by (simp add: gate_inv_def)
  then show ?thesis
    using assms Recv by (auto simp: gate_inv_def split: if_splits)
qed

lemma gate_inv_run:
  "gate_inv cap s \<Longrightarrow> run_steps b f auths cap sched s = Some s' \<Longrightarrow> gate_inv cap s'"
proof (induction sched arbitrary: s)
  case Nil
  then show ?case by simp
next
  case (Cons st sched)
  then obtain s1 where s1: "processFact_step b f auths cap s st = Some s1"
    and rest: "run_steps b f auths cap sched s1 = Some s'"
    by (auto split: option.splits)
  show ?case using Cons.IH [OF gate_inv_step [OF Cons.prems(1) s1] rest] .
qed

text \<open>
  C7.  After any execution of the goroutines, whatever the interleaving, the number of
  goroutines inside \<open>GetFacts\<close> is at most the capacity of the channel: the goroutines
  that have sent and not yet received are as many as the values in the buffer, which
  never holds more than the capacity.  A goroutine enters \<open>GetFacts\<close> only through its
  send; whatever \<open>GetFacts\<close> returned, its receive is then possible at once, so the slot
  is given back.
\<close>

theorem admission_gate_bound:
  assumes "run_steps b f auths cap sched (dispatch insts) = Some s"
  shows "running (pcs s) \<le> cap
     \<and> holding (pcs s) = length (limiter s)
     \<and> length (limiter s) \<le> cap
     \<and> crashed s = None
     \<and> (\<forall>i<length (pcs s). pcs s ! i = AtRecv
           \<longrightarrow> processFact_step b f auths cap s (Recv i)
                 = Some (s\<lparr>limiter := tl (limiter s), pcs := (pcs s)[i := Finished]\<rparr>))"
proof -
  have inv: "gate_inv cap s"
    using gate_inv_run [OF gate_inv_dispatch assms] .
  then have "running (pcs s) \<le> cap"
    using running_le_holding [of "pcs s"] by (simp add: gate_inv_def)
  moreover have "\<forall>i<length (pcs s). pcs s ! i = AtRecv
           \<longrightarrow> processFact_step b f auths cap s (Recv i)
                 = Some (s\<lparr>limiter := tl (limiter s), pcs := (pcs s)[i := Finished]\<rparr>)"
  proof (intro allI impI)
    fix i
    assume i: "i < length (pcs s)" and at: "pcs s ! i = AtRecv"
    have "limiter s \<noteq> []"
      using inv holding_pos [OF i at] by (auto simp: gate_inv_def)
    then show "processFact_step b f auths cap s (Recv i)
                 = Some (s\<lparr>limiter := tl (limiter s), pcs := (pcs s)[i := Finished]\<rparr>)"
      using inv i at by (simp add: gate_inv_def)
  qed
  ultimately show ?thesis using inv by (simp add: gate_inv_def)
qed

theorem admission_gate_bound_witness:
  "run_steps stub [''kernel'' \<mapsto> ''uname -rs''] [ec2_user] 1
      [Send 1, Collect 1 [''kernel''] [''kernel'']] (dispatch [web1, db1])
     = Some \<lparr>limiter = [1], pcs = [AtSend, AtRecv],
             instances = [web1, db1\<lparr>facts := None,
                 err := Some (Errorf (''Can'' @ [CHR 0x27]
                          @ ''t connect to host with addresses: [10.0.0.9]''))\<rparr>],
             crashed = None\<rparr>
   \<and> running [AtSend, AtRecv] \<le> 1
   \<and> holding [AtSend, AtRecv] = length [1::nat]
   \<and> processFact_step stub [''kernel'' \<mapsto> ''uname -rs''] [ec2_user] 1
        \<lparr>limiter = [1], pcs = [AtSend, AtRecv],
         instances = [web1, db1\<lparr>facts := None,
                 err := Some (Errorf (''Can'' @ [CHR 0x27]
                          @ ''t connect to host with addresses: [10.0.0.9]''))\<rparr>],
         crashed = None\<rparr> (Recv 1)
       = Some \<lparr>limiter = [], pcs = [AtSend, Finished],
               instances = [web1, db1\<lparr>facts := None,
                 err := Some (Errorf (''Can'' @ [CHR 0x27]
                          @ ''t connect to host with addresses: [10.0.0.9]''))\<rparr>],
               crashed = None\<rparr>"
proof -
  let ?s = "\<lparr>limiter = [1], pcs = [AtSend, AtRecv],
             instances = [web1, db1\<lparr>facts := None,
                 err := Some (Errorf (''Can'' @ [CHR 0x27]
                          @ ''t connect to host with addresses: [10.0.0.9]''))\<rparr>],
             crashed = None\<rparr>"
  have g: "GetFacts stub [''10.0.0.9''] [''kernel'' \<mapsto> ''uname -rs''] [ec2_user] [''kernel''] [''kernel'']
      = (Inr (None, Some (Errorf (''Can'' @ [CHR 0x27]
                          @ ''t connect to host with addresses: [10.0.0.9]''))),
         [CDial ''10.0.0.9:22'' ec2_user])"
    by (simp add: GetFacts_def stub_def ec2_user_def fmt_v_def)
  have r: "run_steps stub [''kernel'' \<mapsto> ''uname -rs''] [ec2_user] 1
      [Send 1, Collect 1 [''kernel''] [''kernel'']] (dispatch [web1, db1]) = Some ?s"
    using g by (simp add: dispatch_def db1_def)
  show ?thesis
    using admission_gate_bound [OF r] r by simp
qed

lemma gate_full_blocks_send:
  "run_steps stub [''kernel'' \<mapsto> ''uname -rs''] [ec2_user] 1 [Send 1, Send 0] (dispatch [web1, db1])
     = None"
  by (simp add: dispatch_def)

section \<open>The job as a whole\<close>

subsection \<open>The instances keep their identity and their place\<close>

lemma same_target_update:
  assumes "list_all2 same_target xs ys" and "i < length xs" and "same_target x (xs ! i)"
  shows "list_all2 same_target (xs[i := x]) ys"
proof -
  have "same_target (xs ! i) (ys ! i)"
    using assms(1,2) by (simp add: list_all2_nthD)
  then have "same_target x (ys ! i)"
    using assms(3) by (simp add: same_target_def)
  then have "list_all2 same_target (xs[i := x]) (ys[i := ys ! i])"
    using list_all2_update_cong [OF assms(1)] by blast
  then show ?thesis by simp
qed

lemma same_target_step:
  assumes "list_all2 same_target (instances s) insts"
    and "processFact_step b f auths cap s st = Some s'"
  shows "list_all2 same_target (instances s') insts"
proof (cases st)
  case (Collect i ks1 ks2)
  have "same_target ((instances s ! i)\<lparr>facts := fs, err := e\<rparr>) (instances s ! i)" for fs e
    by (simp add: same_target_def)
  then show ?thesis
    using assms Collect same_target_update [OF assms(1)]
    by (auto split: if_splits sum.splits)
qed (use assms in \<open>auto split: if_splits\<close>)

lemma same_target_run:
  "list_all2 same_target (instances s) insts \<Longrightarrow>
   run_steps b f auths cap sched s = Some s' \<Longrightarrow> list_all2 same_target (instances s') insts"
proof (induction sched arbitrary: s)
  case Nil
  then show ?case by simp
next
  case (Cons st sched)
  then obtain s1 where s1: "processFact_step b f auths cap s st = Some s1"
    and rest: "run_steps b f auths cap sched s1 = Some s'"
    by (auto split: option.splits)
  show ?case using Cons.IH [OF same_target_step [OF Cons.prems(1) s1] rest] .
qed

lemma same_target_dispatch: "list_all2 same_target (instances (dispatch insts)) insts"
  by (simp add: dispatch_def list_all2_conv_all_nth same_target_def)

lemma format_row_identity:
  "format_row inst f = Inr row \<Longrightarrow>
   InstanceId row = (case InstanceIdPtr (description inst) of None \<Rightarrow> [] | Some x \<Rightarrow> x)
   \<and> find_Name (Tags (description inst)) [] = Inr (Name row)
   \<and> IPs row = addrs inst"
  by (auto simp: format_row_def split: sum.splits)

lemma well_tagged_same:
  "list_all2 same_target xs ys \<Longrightarrow> list_all well_tagged ys \<Longrightarrow> list_all well_tagged xs"
  by (induction rule: list_all2_induct) (simp_all add: well_tagged_def same_target_def)

text \<open>
  C8.  After any execution of the goroutines, whatever the interleaving (so whatever the
  order in which they complete), the table \<open>formatResult\<close> makes of the instances has
  one row per target of the input list, and the row at each position is the row of the
  target at that position: its instance id, its \<open>Name\<close> tag and its addresses.  The
  table exists when no tag has a nil key or value.
\<close>

theorem result_table_order:
  assumes "run_steps b f auths cap sched (dispatch insts) = Some s"
  shows "(list_all well_tagged insts \<longrightarrow> (\<exists>rows. formatResult (instances s) f = Inr rows))
     \<and> (\<forall>rows. formatResult (instances s) f = Inr rows
           \<longrightarrow> length rows = length insts
               \<and> (\<forall>i<length insts.
                     InstanceId (rows ! i)
                       = (case InstanceIdPtr (description (insts ! i)) of None \<Rightarrow> [] | Some x \<Rightarrow> x)
                     \<and> find_Name (Tags (description (insts ! i))) [] = Inr (Name (rows ! i))
                     \<and> IPs (rows ! i) = addrs (insts ! i)))"
proof -
  have same: "list_all2 same_target (instances s) insts"
    using same_target_run [OF same_target_dispatch assms] .
  have exists: "list_all well_tagged insts \<longrightarrow> (\<exists>rows. formatResult (instances s) f = Inr rows)"
    using well_tagged_same [OF same] formatResult_total by blast
  have rows: "\<forall>rows. formatResult (instances s) f = Inr rows
           \<longrightarrow> length rows = length insts
               \<and> (\<forall>i<length insts.
                     InstanceId (rows ! i)
                       = (case InstanceIdPtr (description (insts ! i)) of None \<Rightarrow> [] | Some x \<Rightarrow> x)
                     \<and> find_Name (Tags (description (insts ! i))) [] = Inr (Name (rows ! i))
                     \<and> IPs (rows ! i) = addrs (insts ! i))"
  proof (intro allI impI)
    fix rows
    assume t: "formatResult (instances s) f = Inr rows"
    have len: "length (instances s) = length insts"
      using same by (rule list_all2_lengthD)
    have each: "\<forall>i<length insts. format_row (instances s ! i) f = Inr (rows ! i)"
      using formatResult_rows [OF t] len by simp
    show "length rows = length insts
               \<and> (\<forall>i<length insts.
                     InstanceId (rows ! i)
                       = (case InstanceIdPtr (description (insts ! i)) of None \<Rightarrow> [] | Some x \<Rightarrow> x)
                     \<and> find_Name (Tags (description (insts ! i))) [] = Inr (Name (rows ! i))
                     \<and> IPs (rows ! i) = addrs (insts ! i))"
    proof (intro conjI allI impI)
      show "length rows = length insts"
        using formatResult_rows [OF t] len by simp
    next
      fix i
      assume i: "i < length insts"
      have st: "same_target (instances s ! i) (insts ! i)"
        using same i len by (simp add: list_all2_nthD)
      have row: "format_row (instances s ! i) f = Inr (rows ! i)"
        using each i by simp
      show "InstanceId (rows ! i)
              = (case InstanceIdPtr (description (insts ! i)) of None \<Rightarrow> [] | Some x \<Rightarrow> x)"
        using format_row_identity [OF row] st by (simp add: same_target_def)
      show "find_Name (Tags (description (insts ! i))) [] = Inr (Name (rows ! i))"
        using format_row_identity [OF row] st by (simp add: same_target_def)
      show "IPs (rows ! i) = addrs (insts ! i)"
        using format_row_identity [OF row] st by (simp add: same_target_def)
    qed
  qed
  show ?thesis using exists rows by blast
qed

theorem result_table_order_witness:
  "run_steps stub [''kernel'' \<mapsto> ''uname -rs''] [ec2_user] 2 second_first (dispatch [web1, db1])
     = Some \<lparr>limiter = [], pcs = [Finished, Finished],
             instances =
               [web1\<lparr>facts := Some [''kernel'' \<mapsto> ''uname -rs''], err := None\<rparr>,
                db1\<lparr>facts := None,
                    err := Some (Errorf (''Can'' @ [CHR 0x27]
                             @ ''t connect to host with addresses: [10.0.0.9]''))\<rparr>],
             crashed = None\<rparr>
   \<and> list_all well_tagged [web1, db1]
   \<and> formatResult
        [web1\<lparr>facts := Some [''kernel'' \<mapsto> ''uname -rs''], err := None\<rparr>,
         db1\<lparr>facts := None,
             err := Some (Errorf (''Can'' @ [CHR 0x27]
                      @ ''t connect to host with addresses: [10.0.0.9]''))\<rparr>]
        [''kernel'' \<mapsto> ''uname -rs'']
       = Inr [\<lparr>InstanceId = ''i-01'', Name = ''web1'', IPs = [''10.0.0.2''],
               Facts = row_Facts (Some [''kernel'' \<mapsto> ''uname -rs'']) [''kernel'' \<mapsto> ''uname -rs'']\<rparr>,
              \<lparr>InstanceId = ''i-02'', Name = [], IPs = [''10.0.0.9''],
               Facts = row_Facts None [''kernel'' \<mapsto> ''uname -rs'']\<rparr>]
   \<and> length [web1, db1] = (2::nat)"
proof -
  let ?f = "[''kernel'' \<mapsto> ''uname -rs'']"
  let ?e = "Errorf (''Can'' @ [CHR 0x27] @ ''t connect to host with addresses: [10.0.0.9]'')"
  let ?final = "[web1\<lparr>facts := Some ?f, err := None\<rparr>, db1\<lparr>facts := None, err := Some ?e\<rparr>]"
  let ?s = "\<lparr>limiter = [], pcs = [Finished, Finished], instances = ?final, crashed = None\<rparr>"
  have trim: "TrimSpace ('' uname -rs'' @ [CHR 0x0A]) = ''uname -rs''"
    by (simp add: TrimSpace_def strip_one_def space_runes_def)
  have g0: "fst (GetFacts stub [''10.0.0.2''] ?f [ec2_user] [''kernel''] [''kernel''])
      = Inr (Some ?f, None)"
    using trim by (simp add: GetFacts_def stub_def ec2_user_def)
  have g1: "fst (GetFacts stub [''10.0.0.9''] ?f [ec2_user] [''kernel''] [''kernel''])
      = Inr (None, Some ?e)"
    by (simp add: GetFacts_def stub_def ec2_user_def fmt_v_def)
  have r: "run_steps stub ?f [ec2_user] 2 second_first (dispatch [web1, db1]) = Some ?s"
    using g0 g1 by (simp add: second_first_def dispatch_def web1_def db1_def)
  have w: "list_all well_tagged [web1, db1]"
    by (simp add: well_tagged_def web1_def db1_def)
  have t: "formatResult ?final ?f
       = Inr [\<lparr>InstanceId = ''i-01'', Name = ''web1'', IPs = [''10.0.0.2''],
               Facts = row_Facts (Some ?f) ?f\<rparr>,
              \<lparr>InstanceId = ''i-02'', Name = [], IPs = [''10.0.0.9''],
               Facts = row_Facts None ?f\<rparr>]"
    by (simp add: format_row_def web1_def db1_def)
  show ?thesis
    using result_table_order [OF r] r w t by simp
qed

section \<open>Two runs of Worker\<close>

subsection \<open>The facts map does not depend on the order of the visits\<close>

lemma create_sessions_all_granted:
  "set ks \<subseteq> dom f \<Longrightarrow> fst (create_sessions b c conStr f ks (cms, n, tr)) = None \<Longrightarrow>
   (\<forall>i<length ks. NewSession b c (n + i) = None) \<and> (\<forall>name\<in>set ks. Start b c (the (f name)) = None)"
proof (induction ks arbitrary: cms n tr)
  case Nil
  then show ?case by simp
next
  case (Cons k ks)
  obtain cm where cm: "f k = Some cm" using Cons.prems(1) by auto
  have ns: "NewSession b c n = None"
    using Cons.prems(2) cm by (auto split: option.splits)
  have st: "Start b c cm = None"
    using Cons.prems(2) cm ns by (auto split: option.splits)
  have rest: "fst (create_sessions b c conStr f ks
      (cms(k \<mapsto> \<lparr>session = n, cmd = cm\<rparr>), Suc n, tr @ [CNewSession c, CStart c n cm])) = None"
    using Cons.prems(2) cm ns st by simp
  have sub: "set ks \<subseteq> dom f" using Cons.prems(1) by simp
  have ih: "(\<forall>i<length ks. NewSession b c (Suc n + i) = None)
      \<and> (\<forall>name\<in>set ks. Start b c (the (f name)) = None)"
    using Cons.IH [OF sub rest] .
  have "NewSession b c (n + i) = None" if "i < length (k # ks)" for i
    using that ih ns by (cases i) simp_all
  then show ?case using ih st cm by simp
qed

lemma GetFacts_refused_somewhere:
  assumes "hostAddrs \<noteq> []"
    and "dial_auths b hostAddrs auths ([], None, []) = (conStr, Some c, tr)"
    and "range_order f ks1"
    and "\<not> ((\<forall>i<length ks1. NewSession b c i = None)
            \<and> (\<forall>name\<in>set ks1. Start b c (the (f name)) = None))"
  shows "facts_part (fst (GetFacts b hostAddrs f auths ks1 ks2)) = None"
proof -
  have cs: "conStr \<noteq> []"
    using dial_auths_conStr_client [OF assms(2)] by simp
  have sub: "set ks1 \<subseteq> dom f" using assms(3) by (simp add: range_order_def)
  obtain r cms n tr1 where cr:
    "create_sessions b c conStr f ks1 (Map.empty, 0, tr) = (r, (cms, n, tr1))"
    by (cases "create_sessions b c conStr f ks1 (Map.empty, 0, tr)") auto
  have "r \<noteq> None"
  proof
    assume "r = None"
    then have "fst (create_sessions b c conStr f ks1 (Map.empty, 0, tr)) = None"
      using cr by simp
    then have "(\<forall>i<length ks1. NewSession b c (0 + i) = None)
        \<and> (\<forall>name\<in>set ks1. Start b c (the (f name)) = None)"
      using create_sessions_all_granted [OF sub] by blast
    then show False using assms(4) by simp
  qed
  then obtain e where "r = Some e" by auto
  then show ?thesis
    using assms(1,2) cs cr by (simp add: GetFacts_def facts_part_def)
qed

lemma GetFacts_facts_independent:
  assumes "range_order f ks1" and "range_order f ks2"
    and "range_order f ks1'" and "range_order f ks2'"
  shows "facts_part (fst (GetFacts b hostAddrs f auths ks1 ks2))
           = facts_part (fst (GetFacts b hostAddrs f auths ks1' ks2'))"
proof (cases "hostAddrs = []")
  case True
  then show ?thesis by (simp add: GetFacts_def)
next
  case False
  obtain conStr cl tr where d: "dial_auths b hostAddrs auths ([], None, []) = (conStr, cl, tr)"
    by (cases "dial_auths b hostAddrs auths ([], None, [])") auto
  show ?thesis
  proof (cases cl)
    case None
    then have "conStr = []" using dial_auths_conStr_client [OF d] by simp
    then show ?thesis using False d by (simp add: GetFacts_def)
  next
    case (Some c)
    have d': "dial_auths b hostAddrs auths ([], None, []) = (conStr, Some c, tr)"
      using d Some by simp
    have sets: "set ks1 = set ks1'"
      using assms(1,3) by (simp add: range_order_def)
    have "distinct ks1" "distinct ks1'"
      using assms(1,3) by (simp_all add: range_order_def)
    then have "card (set ks1) = length ks1" "card (set ks1') = length ks1'"
      by (simp_all add: distinct_card)
    then have lens: "length ks1 = length ks1'" using sets by simp
    show ?thesis
    proof (cases "(\<forall>i<length ks1. NewSession b c i = None)
            \<and> (\<forall>name\<in>set ks1. Start b c (the (f name)) = None)")
      case True
      then have g: "\<forall>n<length ks1. NewSession b c n = None"
        and st: "\<forall>name\<in>set ks1. Start b c (the (f name)) = None"
        by simp_all
      have g': "\<forall>n<length ks1'. NewSession b c n = None" using g lens by simp
      have st': "\<forall>name\<in>set ks1'. Start b c (the (f name)) = None" using st sets by simp
      show ?thesis
        using GetFacts_batch [OF False d' assms(1,2) g st]
          GetFacts_batch [OF False d' assms(3,4) g' st']
        by (simp add: facts_part_def)
    next
      case no: False
      then have no': "\<not> ((\<forall>i<length ks1'. NewSession b c i = None)
            \<and> (\<forall>name\<in>set ks1'. Start b c (the (f name)) = None))"
        using sets lens by simp
      show ?thesis
        using GetFacts_refused_somewhere [OF False d' assms(1) no]
          GetFacts_refused_somewhere [OF False d' assms(3) no']
        by simp
    qed
  qed
qed

subsection \<open>What a goroutine leaves in its instance\<close>

definition settled ::
  "backend \<Rightarrow> (string \<rightharpoonup> string) \<Rightarrow> ClientConfig list \<Rightarrow> InstanceInfo list \<Rightarrow> jobstate \<Rightarrow> bool" where
  "settled b f auths insts s =
     (length (pcs s) = length insts \<and> list_all2 same_target (instances s) insts
      \<and> (\<forall>i<length insts. pcs s ! i = AtRecv \<or> pcs s ! i = Finished
            \<longrightarrow> (\<exists>ks1 ks2. range_order f ks1 \<and> range_order f ks2
                    \<and> facts (instances s ! i)
                        = facts_part (fst (GetFacts b (addrs (insts ! i)) f auths ks1 ks2)))))"

lemma settled_dispatch: "settled b f auths insts (dispatch insts)"
  using same_target_dispatch [of insts] by (simp add: settled_def dispatch_def)

lemma settled_pcs:
  assumes "settled b f auths insts s" and "length ps = length (pcs s)"
    and "\<forall>i<length ps. ps ! i = AtRecv \<or> ps ! i = Finished
           \<longrightarrow> pcs s ! i = AtRecv \<or> pcs s ! i = Finished"
  shows "settled b f auths insts (s\<lparr>limiter := l, pcs := ps\<rparr>)"
proof -
  have len: "length (pcs s) = length insts"
    and same: "list_all2 same_target (instances s) insts"
    and fin: "\<forall>i<length insts. pcs s ! i = AtRecv \<or> pcs s ! i = Finished
            \<longrightarrow> (\<exists>ks1 ks2. range_order f ks1 \<and> range_order f ks2
                    \<and> facts (instances s ! i)
                        = facts_part (fst (GetFacts b (addrs (insts ! i)) f auths ks1 ks2)))"
    using assms(1) by (simp_all add: settled_def)
  have "\<exists>ks1 ks2. range_order f ks1 \<and> range_order f ks2
                  \<and> facts (instances s ! i)
                      = facts_part (fst (GetFacts b (addrs (insts ! i)) f auths ks1 ks2))"
    if "i < length insts" and "ps ! i = AtRecv \<or> ps ! i = Finished" for i
  proof -
    have "pcs s ! i = AtRecv \<or> pcs s ! i = Finished"
      using that assms(2,3) len by auto
    then show ?thesis using fin that(1) by blast
  qed
  then show ?thesis
    using len same assms(2) by (simp add: settled_def)
qed

lemma settled_step:
  assumes "settled b f auths insts s" and "step_orders_ok f st"
    and "processFact_step b f auths cap s st = Some s'"
  shows "settled b f auths insts s'"
proof (cases st)
  case (Send i)
  then have s': "s' = s\<lparr>limiter := limiter s @ [i], pcs := (pcs s)[i := InGetFacts]\<rparr>"
    and i: "i < length (pcs s)"
    using assms(3) by (auto split: if_splits)
  have "\<forall>k<length ((pcs s)[i := InGetFacts]).
      (pcs s)[i := InGetFacts] ! k = AtRecv \<or> (pcs s)[i := InGetFacts] ! k = Finished
      \<longrightarrow> pcs s ! k = AtRecv \<or> pcs s ! k = Finished"
    using i by (auto simp: nth_list_update)
  then show ?thesis
    unfolding s' using settled_pcs [OF assms(1)] by simp
next
  case (Handoff i j)
  then have s': "s' = s\<lparr>limiter := limiter s, pcs := (pcs s)[i := InGetFacts, j := Finished]\<rparr>"
    and i: "i < length (pcs s)" and j: "j < length (pcs s)" and at: "pcs s ! j = AtRecv"
    using assms(3) by (auto split: if_splits)
  have c: "\<forall>k<length ((pcs s)[i := InGetFacts, j := Finished]).
      (pcs s)[i := InGetFacts, j := Finished] ! k = AtRecv
        \<or> (pcs s)[i := InGetFacts, j := Finished] ! k = Finished
      \<longrightarrow> pcs s ! k = AtRecv \<or> pcs s ! k = Finished"
    using i j at by (auto simp: nth_list_update)
  have "settled b f auths insts
      (s\<lparr>limiter := limiter s, pcs := (pcs s)[i := InGetFacts, j := Finished]\<rparr>)"
    by (rule settled_pcs [OF assms(1) _ c]) simp
  then show ?thesis
    unfolding s' by simp
next
  case (Recv i)
  then have s': "s' = s\<lparr>limiter := tl (limiter s), pcs := (pcs s)[i := Finished]\<rparr>"
    and i: "i < length (pcs s)" and at: "pcs s ! i = AtRecv"
    using assms(3) by (auto split: if_splits)
  have "\<forall>k<length ((pcs s)[i := Finished]).
      (pcs s)[i := Finished] ! k = AtRecv \<or> (pcs s)[i := Finished] ! k = Finished
      \<longrightarrow> pcs s ! k = AtRecv \<or> pcs s ! k = Finished"
    using i at by (auto simp: nth_list_update)
  then show ?thesis
    unfolding s' using settled_pcs [OF assms(1)] by simp
next
  case (Collect i ks1 ks2)
  have len: "length (pcs s) = length insts"
    and same: "list_all2 same_target (instances s) insts"
    and fin: "\<forall>i<length insts. pcs s ! i = AtRecv \<or> pcs s ! i = Finished
            \<longrightarrow> (\<exists>ks1 ks2. range_order f ks1 \<and> range_order f ks2
                    \<and> facts (instances s ! i)
                        = facts_part (fst (GetFacts b (addrs (insts ! i)) f auths ks1 ks2)))"
    using assms(1) by (simp_all add: settled_def)
  have same': "list_all2 same_target (instances s') insts"
    using same_target_step [OF same assms(3)] .
  have ok: "range_order f ks1" "range_order f ks2"
    using assms(2) Collect by simp_all
  obtain fs e where r: "fst (GetFacts b (addrs (instances s ! i)) f auths ks1 ks2) = Inr (fs, e)"
    using GetFacts_never_panics [of b "addrs (instances s ! i)" f auths ks1 ks2]
    by (cases "fst (GetFacts b (addrs (instances s ! i)) f auths ks1 ks2)") auto
  have en: "i < length (pcs s)" "i < length (instances s)"
    using assms(3) Collect by (auto split: if_splits)
  have s': "s' = s\<lparr>pcs := (pcs s)[i := AtRecv],
                    instances := (instances s)[i := (instances s ! i)\<lparr>facts := fs, err := e\<rparr>]\<rparr>"
    using assms(3) Collect r by (auto split: if_splits)
  have "same_target (instances s ! i) (insts ! i)"
    using same en by (simp add: list_all2_nthD)
  then have "addrs (instances s ! i) = addrs (insts ! i)"
    by (simp add: same_target_def)
  then have mine: "fs = facts_part (fst (GetFacts b (addrs (insts ! i)) f auths ks1 ks2))"
    using r by (simp add: facts_part_def)
  have "\<exists>ks1 ks2. range_order f ks1 \<and> range_order f ks2
                  \<and> facts (instances s' ! k)
                      = facts_part (fst (GetFacts b (addrs (insts ! k)) f auths ks1 ks2))"
    if k: "k < length insts" and at: "pcs s' ! k = AtRecv \<or> pcs s' ! k = Finished" for k
  proof (cases "k = i")
    case True
    then have "facts (instances s' ! k) = fs"
      using en by (simp add: s')
    then show ?thesis using mine ok True by blast
  next
    case False
    then have "pcs s' ! k = pcs s ! k" "instances s' ! k = instances s ! k"
      by (simp_all add: s')
    then show ?thesis using fin k at by auto
  qed
  moreover have "length (pcs s') = length insts" using len by (simp add: s')
  ultimately show ?thesis using same' by (simp add: settled_def)
qed

lemma settled_run:
  "settled b f auths insts s \<Longrightarrow> orders_ok f sched \<Longrightarrow>
   run_steps b f auths cap sched s = Some s' \<Longrightarrow> settled b f auths insts s'"
proof (induction sched arbitrary: s)
  case Nil
  then show ?case by simp
next
  case (Cons st sched)
  then obtain s1 where s1: "processFact_step b f auths cap s st = Some s1"
    and rest: "run_steps b f auths cap sched s1 = Some s'"
    by (auto split: option.splits)
  have ok: "step_orders_ok f st" "orders_ok f sched"
    using Cons.prems(2) by (simp_all add: orders_ok_def)
  show ?case using Cons.IH [OF settled_step [OF Cons.prems(1) ok(1) s1] ok(2) rest] .
qed

lemma format_row_cong:
  "description x = description y \<Longrightarrow> addrs x = addrs y \<Longrightarrow> facts x = facts y \<Longrightarrow>
   format_row x f = format_row y f"
  by (simp add: format_row_def split: sum.splits)

lemma formatResult_cong:
  "list_all2 (\<lambda>x y. description x = description y \<and> addrs x = addrs y \<and> facts x = facts y) xs ys
   \<Longrightarrow> formatResult xs f = formatResult ys f"
proof (induction rule: list_all2_induct)
  case Nil
  then show ?case by simp
next
  case (Cons x xs y ys)
  have "format_row x f = format_row y f"
    using Cons.hyps(1) format_row_cong [of x y f] by blast
  then show ?case using Cons.IH by (simp split: sum.splits)
qed

lemma settled_finished:
  assumes "settled b f auths insts s" and "i < length insts" and "pcs s ! i = Finished"
  shows "same_target (instances s ! i) (insts ! i)
     \<and> (\<exists>ks1 ks2. range_order f ks1 \<and> range_order f ks2
            \<and> facts (instances s ! i)
                = facts_part (fst (GetFacts b (addrs (insts ! i)) f auths ks1 ks2)))"
proof -
  have same: "list_all2 same_target (instances s) insts"
    and fin: "\<forall>i<length insts. pcs s ! i = AtRecv \<or> pcs s ! i = Finished
            \<longrightarrow> (\<exists>ks1 ks2. range_order f ks1 \<and> range_order f ks2
                    \<and> facts (instances s ! i)
                        = facts_part (fst (GetFacts b (addrs (insts ! i)) f auths ks1 ks2)))"
    using assms(1) by (simp_all add: settled_def)
  have "length (instances s) = length insts"
    using same by (rule list_all2_lengthD)
  then have "same_target (instances s ! i) (insts ! i)"
    using same assms(2) by (simp add: list_all2_nthD)
  moreover have "\<exists>ks1 ks2. range_order f ks1 \<and> range_order f ks2
            \<and> facts (instances s ! i)
                = facts_part (fst (GetFacts b (addrs (insts ! i)) f auths ks1 ks2))"
    using fin [rule_format, OF assms(2)] assms(3) by simp
  ultimately show ?thesis by simp
qed

lemma finished_tables_equal:
  assumes "settled b f auths insts s1" and "settled b f auths insts s2"
    and "list_all (\<lambda>p. p = Finished) (pcs s1)" and "list_all (\<lambda>p. p = Finished) (pcs s2)"
  shows "formatResult (instances s1) f = formatResult (instances s2) f"
proof -
  have p1: "length (pcs s1) = length insts" and q1: "list_all2 same_target (instances s1) insts"
    using assms(1) by (simp_all add: settled_def)
  have p2: "length (pcs s2) = length insts" and q2: "list_all2 same_target (instances s2) insts"
    using assms(2) by (simp_all add: settled_def)
  have l1: "length (instances s1) = length insts"
    using q1 by (rule list_all2_lengthD)
  have l2: "length (instances s2) = length insts"
    using q2 by (rule list_all2_lengthD)
  have "description (instances s1 ! i) = description (instances s2 ! i)
      \<and> addrs (instances s1 ! i) = addrs (instances s2 ! i)
      \<and> facts (instances s1 ! i) = facts (instances s2 ! i)" if i: "i < length insts" for i
  proof -
    have f1: "pcs s1 ! i = Finished"
      using assms(3) i p1 by (simp add: list_all_length)
    have f2: "pcs s2 ! i = Finished"
      using assms(4) i p2 by (simp add: list_all_length)
    obtain ks1 ks2 where t1: "same_target (instances s1 ! i) (insts ! i)"
      and o1: "range_order f ks1" "range_order f ks2"
      and v1: "facts (instances s1 ! i)
                 = facts_part (fst (GetFacts b (addrs (insts ! i)) f auths ks1 ks2))"
      using settled_finished [OF assms(1) i f1] by blast
    obtain ks1' ks2' where t2: "same_target (instances s2 ! i) (insts ! i)"
      and o2: "range_order f ks1'" "range_order f ks2'"
      and v2: "facts (instances s2 ! i)
                 = facts_part (fst (GetFacts b (addrs (insts ! i)) f auths ks1' ks2'))"
      using settled_finished [OF assms(2) i f2] by blast
    have "facts (instances s1 ! i) = facts (instances s2 ! i)"
      using v1 v2 GetFacts_facts_independent [OF o1 o2] by simp
    then show ?thesis using t1 t2 by (simp add: same_target_def)
  qed
  then have "list_all2 (\<lambda>x y. description x = description y \<and> addrs x = addrs y \<and> facts x = facts y)
      (instances s1) (instances s2)"
    using l1 l2 by (simp add: list_all2_conv_all_nth)
  then show ?thesis by (rule formatResult_cong)
qed

subsection \<open>Determinism\<close>

lemma Worker_table:
  assumes "authSetup rt = Inr auths"
    and "Unmarshal rt (getEnv env ''FACTS'' defaultFacts) = Inr f"
    and "found rt = Inr insts"
    and "\<not> makechan_panics (maxSessions env)"
    and "Worker rt env sched = Some out"
  shows "\<exists>s. run_steps (remote rt) f auths (nat (maxSessions env)) sched (dispatch insts) = Some s
           \<and> list_all (\<lambda>p. p = Finished) (pcs s)
           \<and> out = (case formatResult (instances s) f of
                      Inl p \<Rightarrow> Panicked p
                    | Inr resTable \<Rightarrow> Returned resTable None)"
proof -
  obtain s where r: "run_steps (remote rt) f auths (nat (maxSessions env)) sched (dispatch insts) = Some s"
    using assms by (auto simp: Worker_def split: option.splits)
  have "crashed s = None"
    using gate_inv_run [OF gate_inv_dispatch r] by (simp add: gate_inv_def)
  then show ?thesis
    using assms r by (auto simp: Worker_def split: if_splits sum.splits)
qed

text \<open>
  C10.  Two runs of \<open>Worker\<close> with the same environment and the same deterministic
  outside (credentials, parsed \<open>FACTS\<close>, instances, remote side), along any two
  interleavings of the goroutines and with any orders of visiting the maps, that both
  come to an end, end the same way: with the same table (the same ids, names, addresses
  and label-to-value maps, row by row), or with the same error or panic.
\<close>

theorem Worker_deterministic:
  assumes "Worker rt env sched1 = Some out1" and "Worker rt env sched2 = Some out2"
    and "\<forall>f. Unmarshal rt (getEnv env ''FACTS'' defaultFacts) = Inr f
           \<longrightarrow> orders_ok f sched1 \<and> orders_ok f sched2"
  shows "out1 = out2"
proof (cases "authSetup rt")
  case (Inl e)
  then show ?thesis using assms(1,2) by (simp add: Worker_def)
next
  case auths: (Inr auths)
  show ?thesis
  proof (cases "Unmarshal rt (getEnv env ''FACTS'' defaultFacts)")
    case (Inl e)
    then show ?thesis using assms(1,2) auths by (simp add: Worker_def)
  next
    case f: (Inr f)
    show ?thesis
    proof (cases "found rt")
      case (Inl e)
      then show ?thesis using assms(1,2) auths f by (simp add: Worker_def)
    next
      case insts: (Inr insts)
      show ?thesis
      proof (cases "makechan_panics (maxSessions env)")
        case True
        then show ?thesis using assms(1,2) auths f insts by (simp add: Worker_def)
      next
        case False
        let ?cap = "nat (maxSessions env)"
        obtain s1 where r1: "run_steps (remote rt) f auths ?cap sched1 (dispatch insts) = Some s1"
          and f1: "list_all (\<lambda>p. p = Finished) (pcs s1)"
          and o1: "out1 = (case formatResult (instances s1) f of
                      Inl p \<Rightarrow> Panicked p
                    | Inr resTable \<Rightarrow> Returned resTable None)"
          using Worker_table [OF auths f insts False assms(1)] by blast
        obtain s2 where r2: "run_steps (remote rt) f auths ?cap sched2 (dispatch insts) = Some s2"
          and f2: "list_all (\<lambda>p. p = Finished) (pcs s2)"
          and o2: "out2 = (case formatResult (instances s2) f of
                      Inl p \<Rightarrow> Panicked p
                    | Inr resTable \<Rightarrow> Returned resTable None)"
          using Worker_table [OF auths f insts False assms(2)] by blast
        have ok: "orders_ok f sched1" "orders_ok f sched2"
          using assms(3) f by simp_all
        have "settled (remote rt) f auths insts s1"
          using settled_run [OF settled_dispatch ok(1) r1] .
        moreover have "settled (remote rt) f auths insts s2"
          using settled_run [OF settled_dispatch ok(2) r2] .
        ultimately have "formatResult (instances s1) f = formatResult (instances s2) f"
          using f1 f2 by (rule finished_tables_equal)
        then show ?thesis using o1 o2 by simp
      qed
    qed
  qed
qed

theorem Worker_deterministic_witness:
  "orders_ok [''kernel'' \<mapsto> ''uname -rs''] second_first
   \<and> orders_ok [''kernel'' \<mapsto> ''uname -rs''] first_first
   \<and> Worker demo_runtime [''MAX_SESSIONS'' \<mapsto> ''2''] second_first
       = Some (Returned
            [\<lparr>InstanceId = ''i-01'', Name = ''web1'', IPs = [''10.0.0.2''],
              Facts = row_Facts (Some [''kernel'' \<mapsto> ''uname -rs'']) [''kernel'' \<mapsto> ''uname -rs'']\<rparr>,
             \<lparr>InstanceId = ''i-02'', Name = [], IPs = [''10.0.0.9''],
              Facts = row_Facts None [''kernel'' \<mapsto> ''uname -rs'']\<rparr>] None)
   \<and> Worker demo_runtime [''MAX_SESSIONS'' \<mapsto> ''2''] first_first
       = Worker demo_runtime [''MAX_SESSIONS'' \<mapsto> ''2''] second_first"
proof -
  let ?f = "[''kernel'' \<mapsto> ''uname -rs'']"
  let ?env = "[''MAX_SESSIONS'' \<mapsto> ''2'']"
  let ?e = "Errorf (''Can'' @ [CHR 0x27] @ ''t connect to host with addresses: [10.0.0.9]'')"
  let ?final = "[web1\<lparr>facts := Some ?f, err := None\<rparr>, db1\<lparr>facts := None, err := Some ?e\<rparr>]"
  let ?s = "\<lparr>limiter = [], pcs = [Finished, Finished], instances = ?final, crashed = None\<rparr>"
  let ?table = "[\<lparr>InstanceId = ''i-01'', Name = ''web1'', IPs = [''10.0.0.2''],
              Facts = row_Facts (Some ?f) ?f\<rparr>,
             \<lparr>InstanceId = ''i-02'', Name = [], IPs = [''10.0.0.9''],
              Facts = row_Facts None ?f\<rparr>]"
  have ro: "range_order ?f [''kernel'']"
    by (simp add: range_order_def)
  have ok1: "orders_ok ?f second_first" and ok2: "orders_ok ?f first_first"
    using ro by (simp_all add: orders_ok_def second_first_def first_first_def)
  have cap: "maxSessions ?env = 2"
    by (simp add: maxSessions_def getEnv_def Atoi_def is_digit_def digit_val_def)
  have mk: "\<not> makechan_panics 2"
    by (simp add: makechan_panics_def)
  have trim: "TrimSpace ('' uname -rs'' @ [CHR 0x0A]) = ''uname -rs''"
    by (simp add: TrimSpace_def strip_one_def space_runes_def)
  have g0: "fst (GetFacts stub [''10.0.0.2''] ?f [ec2_user] [''kernel''] [''kernel''])
      = Inr (Some ?f, None)"
    using trim by (simp add: GetFacts_def stub_def ec2_user_def)
  have g1: "fst (GetFacts stub [''10.0.0.9''] ?f [ec2_user] [''kernel''] [''kernel''])
      = Inr (None, Some ?e)"
    by (simp add: GetFacts_def stub_def ec2_user_def fmt_v_def)
  have r1: "run_steps stub ?f [ec2_user] 2 second_first (dispatch [web1, db1]) = Some ?s"
    using g0 g1 by (simp add: second_first_def dispatch_def web1_def db1_def)
  have r2: "run_steps stub ?f [ec2_user] 2 first_first (dispatch [web1, db1]) = Some ?s"
    using g0 g1 by (simp add: first_first_def dispatch_def web1_def db1_def)
  have t: "formatResult ?final ?f = Inr ?table"
    by (simp add: format_row_def web1_def db1_def)
  have w1: "Worker demo_runtime ?env second_first = Some (Returned ?table None)"
    using cap mk r1 t by (simp add: Worker_def demo_runtime_def)
  have w2: "Worker demo_runtime ?env first_first = Some (Returned ?table None)"
    using cap mk r2 t by (simp add: Worker_def demo_runtime_def)
  have "\<forall>f. Unmarshal demo_runtime (getEnv ?env ''FACTS'' defaultFacts) = Inr f
           \<longrightarrow> orders_ok f first_first \<and> orders_ok f second_first"
    using ok1 ok2 by (simp add: demo_runtime_def)
  then have "Returned ?table None = Returned ?table None"
    using Worker_deterministic [OF w2 w1] by blast
  then show ?thesis using ok1 ok2 w1 w2 by simp
qed

section \<open>Whether Worker returns\<close>

text \<open>
  With a positive capacity that \<open>make\<close> accepts the goroutines can run to the end, for
  instance one after the other, and \<open>Worker\<close> returns a table.  With capacity 0 no goroutine ever gets through
  its send: with at least one instance \<open>Worker\<close> never returns.
\<close>

definition served :: "nat \<Rightarrow> nat \<Rightarrow> jobstate \<Rightarrow> bool" where
  "served n k s =
     (crashed s = None \<and> limiter s = [] \<and> length (pcs s) = n \<and> length (instances s) = n
      \<and> (\<forall>i<n. pcs s ! i = (if i < k then Finished else AtSend)))"

lemma run_steps_append:
  "run_steps b f auths cap (xs @ ys) s =
     (case run_steps b f auths cap xs s of
        None \<Rightarrow> None
      | Some s' \<Rightarrow> run_steps b f auths cap ys s')"
  by (induction xs arbitrary: s) (auto split: option.splits)

lemma serve_one:
  assumes "served n k s" and "k < n" and "0 < cap"
  shows "\<exists>s'. run_steps b f auths cap (serve ks k) s = Some s' \<and> served n (Suc k) s'"
proof -
  obtain fs e where r: "fst (GetFacts b (addrs (instances s ! k)) f auths ks ks) = Inr (fs, e)"
    using GetFacts_never_panics [of b "addrs (instances s ! k)" f auths ks ks]
    by (cases "fst (GetFacts b (addrs (instances s ! k)) f auths ks ks)") auto
  let ?s' = "s\<lparr>limiter := [], pcs := (pcs s)[k := Finished],
               instances := (instances s)[k := (instances s ! k)\<lparr>facts := fs, err := e\<rparr>]\<rparr>"
  have at: "pcs s ! k = AtSend"
    using assms(1,2) by (simp add: served_def)
  have "run_steps b f auths cap (serve ks k) s = Some ?s'"
    using assms at r by (simp add: serve_def served_def)
  moreover have "served n (Suc k) ?s'"
    using assms(1,2) by (auto simp: served_def nth_list_update less_Suc_eq)
  ultimately show ?thesis by blast
qed

lemma serve_upto:
  "served n k s \<Longrightarrow> k + m \<le> n \<Longrightarrow> 0 < cap \<Longrightarrow>
   \<exists>s'. run_steps b f auths cap (concat (map (serve ks) [k..<k + m])) s = Some s'
        \<and> served n (k + m) s'"
proof (induction m)
  case 0
  then show ?case by simp
next
  case (Suc m)
  obtain s1 where s1: "run_steps b f auths cap (concat (map (serve ks) [k..<k + m])) s = Some s1"
    and v1: "served n (k + m) s1"
    using Suc by auto
  have "k + m < n" using Suc.prems(2) by simp
  then obtain s' where s': "run_steps b f auths cap (serve ks (k + m)) s1 = Some s'"
    and v': "served n (Suc (k + m)) s'"
    using serve_one [OF v1 _ Suc.prems(3)] by blast
  have "run_steps b f auths cap (concat (map (serve ks) [k..<k + Suc m])) s = Some s'"
    using s1 s' by (simp add: run_steps_append)
  then show ?case using v' by simp
qed

lemma served_dispatch: "served (length insts) 0 (dispatch insts)"
  by (simp add: served_def dispatch_def)

lemma one_by_one_completes:
  assumes "0 < cap"
  shows "\<exists>s. run_steps b f auths cap (one_by_one ks (length insts)) (dispatch insts) = Some s
           \<and> crashed s = None \<and> list_all (\<lambda>p. p = Finished) (pcs s)"
proof -
  obtain s where r: "run_steps b f auths cap (concat (map (serve ks) [0..<0 + length insts]))
        (dispatch insts) = Some s"
    and v: "served (length insts) (0 + length insts) s"
    using serve_upto [where n = "length insts" and k = 0 and m = "length insts"
        and s = "dispatch insts" and cap = cap and b = b and f = f and auths = auths and ks = ks]
      served_dispatch assms
    by auto
  have "list_all (\<lambda>p. p = Finished) (pcs s)"
    using v by (simp add: served_def list_all_length)
  then show ?thesis using r v by (auto simp: one_by_one_def served_def)
qed

lemma Worker_returns:
  assumes "authSetup rt = Inr auths"
    and "Unmarshal rt (getEnv env ''FACTS'' defaultFacts) = Inr f"
    and "found rt = Inr insts"
    and "0 < maxSessions env" and "\<not> makechan_panics (maxSessions env)"
    and "list_all well_tagged insts"
  shows "\<exists>resTable. Worker rt env (one_by_one ks (length insts)) = Some (Returned resTable None)"
proof -
  have cap: "0 < nat (maxSessions env)" using assms(4) by simp
  obtain s where r: "run_steps (remote rt) f auths (nat (maxSessions env))
        (one_by_one ks (length insts)) (dispatch insts) = Some s"
    and c: "crashed s = None" and fin: "list_all (\<lambda>p. p = Finished) (pcs s)"
    using one_by_one_completes [OF cap] by blast
  have "list_all2 same_target (instances s) insts"
    using same_target_run [OF same_target_dispatch r] .
  then have "list_all well_tagged (instances s)"
    using assms(6) by (rule well_tagged_same)
  then obtain resTable where "formatResult (instances s) f = Inr resTable"
    using formatResult_total by blast
  then show ?thesis
    using assms(1,2,3,5) r c fin by (simp add: Worker_def)
qed

lemma capacity_zero_no_step: "processFact_step b f auths 0 (dispatch insts) st = None"
  by (cases st) (auto simp: dispatch_def)

lemma capacity_zero_blocks:
  assumes "authSetup rt = Inr auths"
    and "Unmarshal rt (getEnv env ''FACTS'' defaultFacts) = Inr f"
    and "found rt = Inr insts"
    and "maxSessions env = 0"
    and "insts \<noteq> []"
  shows "Worker rt env sched = None"
proof (cases sched)
  case Nil
  have "\<not> list_all (\<lambda>p. p = Finished) (replicate (length insts) AtSend)"
    using assms(5) by (cases insts) simp_all
  then show ?thesis
    using assms Nil by (simp add: Worker_def dispatch_def makechan_panics_def)
next
  case (Cons st sts)
  then show ?thesis
    using assms capacity_zero_no_step by (simp add: Worker_def makechan_panics_def)
qed

lemma capacity_too_large_panics:
  assumes "authSetup rt = Inr auths"
    and "Unmarshal rt (getEnv env ''FACTS'' defaultFacts) = Inr f"
    and "found rt = Inr insts"
    and "maxSessions env < 0 \<or> 35184372088820 < maxSessions env"
  shows "Worker rt env sched = Some (Panicked MakechanSizeOutOfRange)"
proof -
  have "makechan_panics (maxSessions env)"
    using assms(4) by (auto simp: makechan_panics_def)
  then show ?thesis using assms(1,2,3) by (simp add: Worker_def)
qed

end
